(* ===== verification/Prelude.thy ===== *)
theory Prelude
  imports Main "HOL-Library.Word" "HOL-Library.Code_Target_Nat"
begin

text \<open>
  Shared ground of the development: the machine integers of the Rust sources as words, the
  \<^verbatim>\<open>Result<T, String>\<close> type as a sum, the collections of facts the component theories
  extend, and the interfaces that several components share (a transition system with an invariant,
  a system that drives another, an encoder with its decoder, a keyed store).
\<close>

section \<open>Types\<close>

type_synonym u8 = "8 word"
type_synonym u16 = "16 word"
type_synonym u32 = "32 word"
type_synonym u64 = "64 word"

text \<open>A Rust \<^verbatim>\<open>Result<T, String>\<close>: the error text on the left.\<close>

type_synonym 'a result = "string + 'a"

abbreviation Err :: "'e \<Rightarrow> 'e + 'a" where "Err \<equiv> Inl"
abbreviation Ok :: "'a \<Rightarrow> 'e + 'a" where "Ok \<equiv> Inr"

text \<open>The code of a byte of a string.\<close>

abbreviation code_of :: "char \<Rightarrow> nat" where "code_of c \<equiv> of_char c"

named_theorems str_simps \<open>evaluation of the string operations\<close>
named_theorems file_simps \<open>reading the file store after an update\<close>
named_theorems step_defs \<open>the transitions of a state machine\<close>

section \<open>Generic lemmas\<close>

lemma find_SomeD: "find P xs = Some x \<Longrightarrow> x \<in> set xs \<and> P x"
  by (induction xs) (auto split: if_splits)

lemma find_NoneD: "find P xs = None \<Longrightarrow> x \<in> set xs \<Longrightarrow> \<not> P x"
  by (auto simp: find_None_iff)

lemma find_cong_on: "(\<And>x. x \<in> set xs \<Longrightarrow> P x = Q x) \<Longrightarrow> find P xs = find Q xs"
  by (induction xs) auto

lemma find_append:
  "find P (xs @ ys) = (case find P xs of None \<Rightarrow> find P ys | Some x \<Rightarrow> Some x)"
  by (induction xs) auto

lemma takeWhile_all [simp]: "(\<And>x. x \<in> set xs \<Longrightarrow> P x) \<Longrightarrow> takeWhile P xs = xs"
  by (simp add: takeWhile_eq_all_conv)

lemma less_256_induct:
  "n < 256 \<Longrightarrow> list_all P [0..<256] \<Longrightarrow> P (n :: nat)"
  by (simp add: list_all_iff)

text \<open>The event of a run by which a property of the state first comes true.\<close>

lemma fold_first:
  "P (fold f es s) \<Longrightarrow> \<not> P s \<Longrightarrow>
   \<exists>pre e post. es = pre @ e # post \<and> \<not> P (fold f pre s) \<and> P (f e (fold f pre s))"
proof (induction es rule: rev_induct)
  case (snoc e es)
  show ?case
  proof (cases "P (fold f es s)")
    case True
    with snoc show ?thesis by (metis append_Cons append_assoc)
  next
    case False
    with snoc.prems show ?thesis by (intro exI [of _ es] exI [of _ e] exI [of _ "[]"]) simp
  qed
qed simp

section \<open>Interfaces\<close>

text \<open>
  A transition system with an invariant: what the start states satisfy and every step keeps
  holds in every reachable state, and along every run.
\<close>

locale invariant_system =
  fixes start :: "'s \<Rightarrow> bool"
    and step :: "'s \<Rightarrow> 's \<Rightarrow> bool"
    and inv :: "'s \<Rightarrow> bool"
  assumes start_inv: "start s \<Longrightarrow> inv s"
    and step_inv: "inv s \<Longrightarrow> step s t \<Longrightarrow> inv t"
begin

lemma run_inv: "inv s \<Longrightarrow> step\<^sup>*\<^sup>* s t \<Longrightarrow> inv t"
  by (rotate_tac 1, induction rule: rtranclp_induct) (auto intro: step_inv)

lemma reachable_inv: "start s \<Longrightarrow> step\<^sup>*\<^sup>* s t \<Longrightarrow> inv t"
  by (blast intro: start_inv run_inv)

end

text \<open>
  A state driven by events: what the allowed events keep holds after every list of them. A system
  that makes progress has besides a bound on the work left, which no allowed event raises and each
  of its own events lowers, so it is done after as many of its own events, whatever else comes in between.
\<close>

locale event_system =
  fixes advance :: "'e \<Rightarrow> 's \<Rightarrow> 's"
    and allowed :: "'e \<Rightarrow> bool"
    and inv :: "'s \<Rightarrow> bool"
  assumes advance_inv: "inv s \<Longrightarrow> allowed e \<Longrightarrow> inv (advance e s)"
begin

lemma fold_inv: "inv s \<Longrightarrow> list_all allowed es \<Longrightarrow> inv (fold advance es s)"
  by (induction es arbitrary: s) (auto intro: advance_inv)

end

sublocale event_system \<subseteq> steps: invariant_system inv "\<lambda>s t. \<exists>e. allowed e \<and> t = advance e s" inv
  by unfold_locales (auto intro: advance_inv)

text \<open>
  A detailed system that drives an abstract one: what an event does to the abstract state is a
  sequence of events of the abstract system, each of which the event permits. So an invariant of the
  abstract system holds in the detailed one.
\<close>

locale invariant_simulation = parts: event_system act allowed inv
  for act :: "'f \<Rightarrow> 't \<Rightarrow> 't" and allowed :: "'f \<Rightarrow> bool" and inv :: "'t \<Rightarrow> bool" +
  fixes advance :: "'e \<Rightarrow> 's \<Rightarrow> 's"
    and part :: "'s \<Rightarrow> 't"
    and permits :: "'e \<Rightarrow> 'f \<Rightarrow> bool"
  assumes simulates: "\<exists>fs. part (advance e s) = fold act fs (part s) \<and> list_all (permits e) fs"
    and permits_allowed: "permits e f \<Longrightarrow> allowed f"

sublocale invariant_simulation \<subseteq> whole: event_system advance "\<lambda>e. True" "\<lambda>s. inv (part s)"
proof
  fix s e
  assume "inv (part s)"
  moreover obtain fs where "part (advance e s) = fold act fs (part s)" "list_all (permits e) fs"
    using simulates by blast
  ultimately show "inv (part (advance e s))"
    using parts.fold_inv [of "part s" fs] permits_allowed by (auto simp: list_all_iff)
qed

locale progress_system = event_system +
  fixes own :: "'e \<Rightarrow> bool"
    and left :: "'s \<Rightarrow> nat"
  assumes advance_left:
    "inv s \<Longrightarrow> allowed e \<Longrightarrow> left (advance e s) \<le> left s - (if own e then 1 else 0)"
begin

lemma fold_left:
  "inv s \<Longrightarrow> list_all allowed es \<Longrightarrow>
   left (fold advance es s) \<le> left s - length (filter own es)"
proof (induction es arbitrary: s)
  case (Cons e es)
  then have "left (fold advance es (advance e s)) \<le> left (advance e s) - length (filter own es)"
    by (auto intro: advance_inv)
  with advance_left [of s e] Cons.prems show ?case by (simp split: if_splits)
qed simp

lemma done_after: "inv s \<Longrightarrow> list_all allowed es \<Longrightarrow> left s \<le> length (filter own es) \<Longrightarrow> left (fold advance es s) = 0"
  using fold_left [of s es] by simp

end

text \<open>
  An encoder into strings with its decoder. Decoding undoes encoding on the valid values, so
  the encoder loses nothing and the decoder accepts every encoding.
\<close>

locale codec =
  fixes enc :: "'a \<Rightarrow> string"
    and dec :: "string \<Rightarrow> 'a option"
    and valid :: "'a \<Rightarrow> bool"
  assumes dec_enc: "valid x \<Longrightarrow> dec (enc x) = Some x"
begin

lemma enc_eq_iff: "valid x \<Longrightarrow> valid y \<Longrightarrow> enc x = enc y \<longleftrightarrow> x = y"
  by (metis dec_enc option.inject)

lemma enc_inj_on: "inj_on enc {x. valid x}"
  by (simp add: inj_on_def enc_eq_iff)

lemma dec_map_enc:
  "(\<And>x. x \<in> set xs \<Longrightarrow> valid x) \<Longrightarrow> map dec (map enc xs) = map Some xs"
  by (induction xs) (auto simp: dec_enc)

end

text \<open>
  A keyed store. \<open>view\<close> is how a stored value reads back (the prefs file of Spotify returns
  it trimmed and unquoted; the file store returns it as it is).
\<close>

locale keyed_store =
  fixes get :: "'s \<Rightarrow> 'k \<Rightarrow> 'v option"
    and put :: "'s \<Rightarrow> 'k \<Rightarrow> 'v \<Rightarrow> 's"
    and view :: "'v \<Rightarrow> 'v"
    and store_ok :: "'s \<Rightarrow> bool"
    and key_ok :: "'k \<Rightarrow> bool"
    and val_ok :: "'v \<Rightarrow> bool"
  assumes put_ok: "store_ok s \<Longrightarrow> key_ok k \<Longrightarrow> val_ok v \<Longrightarrow> store_ok (put s k v)"
    and get_put: "store_ok s \<Longrightarrow> key_ok k \<Longrightarrow> val_ok v \<Longrightarrow> get (put s k v) k = Some (view v)"
    and get_put_other:
      "store_ok s \<Longrightarrow> key_ok k \<Longrightarrow> val_ok v \<Longrightarrow> key_ok k' \<Longrightarrow> k' \<noteq> k \<Longrightarrow>
       get (put s k v) k' = get s k'"
begin

lemma get_put_put:
  "store_ok s \<Longrightarrow> key_ok k \<Longrightarrow> val_ok v \<Longrightarrow> key_ok k' \<Longrightarrow> val_ok v' \<Longrightarrow> k \<noteq> k' \<Longrightarrow>
   get (put (put s k v) k' v') k = Some (view v) \<and>
   get (put (put s k v) k' v') k' = Some (view v')"
  by (simp add: get_put get_put_other put_ok)

lemma put_overwrites:
  "store_ok s \<Longrightarrow> key_ok k \<Longrightarrow> val_ok v \<Longrightarrow> val_ok v' \<Longrightarrow>
   get (put (put s k v) k v') k = Some (view v')"
  by (simp add: get_put put_ok)

end

end
