(* ===== verification/Files.thy ===== *)
theory Files
  imports Prelude
begin

text \<open>
  The part of \<^verbatim>\<open>std::fs\<close> and \<^verbatim>\<open>std::path\<close> the sources use. A path is the list of its
  components, the store maps a path to the contents of the file there, and the environment
  fixes how each system call ends, so that every error branch of the code is reached.
\<close>

type_synonym path = "string list"
type_synonym store = "path \<Rightarrow> string option"

definition path_join :: "path \<Rightarrow> string \<Rightarrow> path" where
  "path_join dir name = dir @ [name]"

text \<open>\<^verbatim>\<open>path.display()\<close> with the Windows separator.\<close>

fun path_display :: "path \<Rightarrow> string" where
  "path_display [] = []"
| "path_display [c] = c"
| "path_display (c # d # cs) = c @ [CHR 0x5C] @ path_display (d # cs)"

text \<open>
  How a \<^verbatim>\<open>fs::write\<close> ends: it creates or truncates the file and then writes it, so a write that
  fails half way leaves a truncated file.
\<close>

datatype write_outcome = WriteOk | CreateFails string | ShortWrite nat string

record io_env =
  mkdir_error :: "path \<Rightarrow> string option"
  write_end :: "path \<Rightarrow> write_outcome"
  remove_ok :: "path \<Rightarrow> bool"
  read_error :: "path \<Rightarrow> string option"
  missing_error :: "path \<Rightarrow> string"

definition create_dir_all :: "io_env \<Rightarrow> path \<Rightarrow> unit result" where
  "create_dir_all env d = (case mkdir_error env d of None \<Rightarrow> Ok () | Some e \<Rightarrow> Err e)"

definition write_file :: "io_env \<Rightarrow> path \<Rightarrow> string \<Rightarrow> store \<Rightarrow> unit result \<times> store" where
  "write_file env p body st =
     (case write_end env p of
        WriteOk \<Rightarrow> (Ok (), st(p \<mapsto> body))
      | CreateFails e \<Rightarrow> (Err e, st)
      | ShortWrite n e \<Rightarrow> (Err e, st(p \<mapsto> take n body)))"

text \<open>The error of a write, if it ends in one.\<close>

definition write_error :: "io_env \<Rightarrow> path \<Rightarrow> string option" where
  "write_error env p =
     (case write_end env p of WriteOk \<Rightarrow> None | CreateFails e \<Rightarrow> Some e | ShortWrite n e \<Rightarrow> Some e)"

definition remove_file :: "io_env \<Rightarrow> path \<Rightarrow> store \<Rightarrow> store" where
  "remove_file env p st = (if remove_ok env p then st(p := None) else st)"

definition read_to_string :: "io_env \<Rightarrow> path \<Rightarrow> store \<Rightarrow> string result" where
  "read_to_string env p st =
     (case st p of
        None \<Rightarrow> Err (missing_error env p)
      | Some s \<Rightarrow> (case read_error env p of None \<Rightarrow> Ok s | Some e \<Rightarrow> Err e))"

definition copy_file :: "io_env \<Rightarrow> path \<Rightarrow> path \<Rightarrow> store \<Rightarrow> unit result \<times> store" where
  "copy_file env src dst st =
     (case read_to_string env src st of
        Err e \<Rightarrow> (Err e, st)
      | Ok body \<Rightarrow> write_file env dst body st)"

definition path_exists :: "path \<Rightarrow> store \<Rightarrow> bool" where
  "path_exists p st \<longleftrightarrow> st p \<noteq> None"

text \<open>An environment in which every call succeeds, for concrete runs.\<close>

definition good_env :: io_env where
  "good_env = \<lparr>mkdir_error = (\<lambda>_. None), write_end = (\<lambda>_. WriteOk), remove_ok = (\<lambda>_. True),
     read_error = (\<lambda>_. None), missing_error = (\<lambda>_. ''not found'')\<rparr>"

lemma good_env_simps [simp]:
  "mkdir_error good_env d = None" "write_end good_env p = WriteOk" "remove_ok good_env p"
  "read_error good_env p = None"
  by (simp_all add: good_env_def)

text \<open>Removing a list of files, the errors ignored as the code ignores them.\<close>

fun remove_files :: "io_env \<Rightarrow> path list \<Rightarrow> store \<Rightarrow> store" where
  "remove_files env [] st = st"
| "remove_files env (p # ps) st = remove_files env ps (remove_file env p st)"

lemma path_join_inject [simp]: "path_join d m = path_join d n \<longleftrightarrow> m = n"
  by (simp add: path_join_def)

lemma remove_files_apply:
  "remove_files env ps st q = (if q \<in> set ps \<and> remove_ok env q then None else st q)"
  by (induction ps arbitrary: st) (auto simp: remove_file_def)

lemma write_file_ok [file_simps]:
  "write_end env p = WriteOk \<Longrightarrow> write_file env p body st = (Ok (), st(p \<mapsto> body))"
  by (simp add: write_file_def)

lemma write_file_frame: "q \<noteq> p \<Longrightarrow> snd (write_file env p body st) q = st q"
  by (simp add: write_file_def split: write_outcome.splits)

lemma write_file_OkD: "write_file env p body st = (Ok u, st') \<Longrightarrow> st' = st(p \<mapsto> body)"
  by (auto simp: write_file_def split: write_outcome.splits)

lemma write_file_ErrD: "write_file env p body st = (Err e, st') \<Longrightarrow> write_error env p = Some e"
  by (simp add: write_file_def write_error_def split: write_outcome.splits)

lemma read_to_string_written [file_simps]:
  "read_error env p = None \<Longrightarrow> read_to_string env p (st(p \<mapsto> s)) = Ok s"
  by (simp add: read_to_string_def)

lemma read_to_string_other [file_simps]:
  "q \<noteq> p \<Longrightarrow> read_to_string env q (st(p := x)) = read_to_string env q st"
  by (simp add: read_to_string_def)

text \<open>The store is a keyed store on the files that can be written.\<close>

interpretation files: keyed_store
  "\<lambda>st p. st p" "\<lambda>st p body. snd (write_file env p body st)" "\<lambda>body. body"
  "\<lambda>_. True" "\<lambda>p. write_end env p = WriteOk" "\<lambda>_. True" for env :: io_env
  by unfold_locales (simp_all add: write_file_ok)

end
