(* ===== verification/Rust_Str.thy ===== *)
theory Rust_Str
  imports Prelude
begin

text \<open>
  The string operations of Rust's standard library that the sources use, on strings as lists
  of UTF-8 bytes (a Rust \<^verbatim>\<open>String\<close> is its bytes: lengths, indices and slices count bytes).
  Whitespace is Unicode \<^verbatim>\<open>White_Space\<close>, given by its UTF-8 encodings.
\<close>

section \<open>Prefixes and searching\<close>

definition starts_with :: "string \<Rightarrow> string \<Rightarrow> bool" where
  "starts_with s p \<longleftrightarrow> take (length p) s = p"

definition ends_with :: "string \<Rightarrow> string \<Rightarrow> bool" where
  "ends_with s p \<longleftrightarrow> starts_with (rev s) (rev p)"

lemma starts_with_simps [simp]:
  "starts_with s [] = True"
  "starts_with [] (d # p) = False"
  "starts_with (c # s) (d # p) \<longleftrightarrow> c = d \<and> starts_with s p"
  by (auto simp: starts_with_def)

declare starts_with_simps [code]

lemma starts_with_append [simp]: "starts_with (p @ s) p"
  by (simp add: starts_with_def)

lemma starts_with_append_same [simp]: "starts_with (p @ s) (p @ q) = starts_with s q"
  by (induction p) auto

lemma starts_with_split: "starts_with s p \<Longrightarrow> s = p @ drop (length p) s"
  by (metis append_take_drop_id starts_with_def)

lemma starts_with_iff: "starts_with s p \<longleftrightarrow> (\<exists>r. s = p @ r)"
  by (metis starts_with_append starts_with_split)

lemma starts_with_length: "starts_with s p \<Longrightarrow> length p \<le> length s"
  by (auto simp: starts_with_iff)

lemma starts_with_trans_append: "starts_with s p \<Longrightarrow> starts_with (s @ t) p"
  by (auto simp: starts_with_iff)

lemma ends_with_iff: "ends_with s p \<longleftrightarrow> (\<exists>r. s = r @ p)"
  by (auto simp: ends_with_def starts_with_iff rev_swap intro: exI [of _ "rev _"])

text \<open>\<^verbatim>\<open>s.find(pat)\<close>: the index of the first occurrence.\<close>

fun find_str :: "string \<Rightarrow> string \<Rightarrow> nat option" where
  "find_str pat [] = (if pat = [] then Some 0 else None)"
| "find_str pat (c # s) =
     (if starts_with (c # s) pat then Some 0 else map_option Suc (find_str pat s))"

definition contains :: "string \<Rightarrow> string \<Rightarrow> bool" where
  "contains s pat \<longleftrightarrow> find_str pat s \<noteq> None"

lemma find_str_None: "find_str pat s = None \<longleftrightarrow> (\<forall>a b. s \<noteq> a @ pat @ b)"
proof (induction s)
  case (Cons c s)
  have "(\<exists>a b. c # s = a @ pat @ b) \<longleftrightarrow>
        starts_with (c # s) pat \<or> (\<exists>a b. s = a @ pat @ b)"
    by (auto simp: starts_with_iff Cons_eq_append_conv)
  with Cons show ?case by auto
qed auto

lemma contains_iff: "contains s pat \<longleftrightarrow> (\<exists>a b. s = a @ pat @ b)"
  by (auto simp: contains_def find_str_None)

lemma find_str_Some:
  "find_str pat s = Some i \<Longrightarrow> s = take i s @ pat @ drop (i + length pat) s"
proof (induction s arbitrary: i)
  case (Cons c s)
  show ?case
  proof (cases "starts_with (c # s) pat")
    case True
    with Cons.prems show ?thesis by (auto dest: starts_with_split)
  next
    case False
    with Cons show ?thesis by auto
  qed
qed (auto split: if_splits)

section \<open>Whitespace and trimming\<close>

text \<open>
  The encodings of the characters with property White_Space: U+0009 to U+000D, U+0020,
  U+0085, U+00A0, U+1680, U+2000 to U+200A, U+2028, U+2029, U+202F, U+205F and U+3000.
\<close>

definition ws_encodings :: "string list" where
  "ws_encodings =
     [[CHR 0x09], [CHR 0x0A], [CHR 0x0B], [CHR 0x0C], [CHR 0x0D], [CHR 0x20],
      [CHR 0xC2, CHR 0x85], [CHR 0xC2, CHR 0xA0], [CHR 0xE1, CHR 0x9A, CHR 0x80],
      [CHR 0xE2, CHR 0x80, CHR 0x80], [CHR 0xE2, CHR 0x80, CHR 0x81],
      [CHR 0xE2, CHR 0x80, CHR 0x82], [CHR 0xE2, CHR 0x80, CHR 0x83],
      [CHR 0xE2, CHR 0x80, CHR 0x84], [CHR 0xE2, CHR 0x80, CHR 0x85],
      [CHR 0xE2, CHR 0x80, CHR 0x86], [CHR 0xE2, CHR 0x80, CHR 0x87],
      [CHR 0xE2, CHR 0x80, CHR 0x88], [CHR 0xE2, CHR 0x80, CHR 0x89],
      [CHR 0xE2, CHR 0x80, CHR 0x8A], [CHR 0xE2, CHR 0x80, CHR 0xA8],
      [CHR 0xE2, CHR 0x80, CHR 0xA9], [CHR 0xE2, CHR 0x80, CHR 0xAF],
      [CHR 0xE2, CHR 0x81, CHR 0x9F], [CHR 0xE3, CHR 0x80, CHR 0x80]]"

text \<open>
  The repeated removal of a prefix, which is \<^verbatim>\<open>trim_start_matches\<close>: of one fixed string, of
  a character, or of any whitespace character.
\<close>

definition strip_one :: "string list \<Rightarrow> string \<Rightarrow> string option" where
  "strip_one ps s =
     map_option (\<lambda>p. drop (length p) s) (find (\<lambda>p. p \<noteq> [] \<and> starts_with s p) ps)"

lemma strip_one_shorter: "strip_one ps s = Some s' \<Longrightarrow> length s' < length s"
  by (auto simp: strip_one_def dest!: find_SomeD starts_with_length)
     (metis diff_less length_greater_0_conv order_less_le_trans)

function strip_many :: "string list \<Rightarrow> string \<Rightarrow> string" where
  "strip_many ps s = (case strip_one ps s of None \<Rightarrow> s | Some s' \<Rightarrow> strip_many ps s')"
  by pat_completeness auto
termination
  by (relation "measure (\<lambda>(ps, s). length s)") (auto dest: strip_one_shorter)

declare strip_many.simps [simp del]

definition strip_many_end :: "string list \<Rightarrow> string \<Rightarrow> string" where
  "strip_many_end ps s = rev (strip_many (map rev ps) (rev s))"

definition trim_start_matches :: "string \<Rightarrow> string \<Rightarrow> string" where
  "trim_start_matches p s = strip_many [p] s"

definition trim_end_matches :: "string \<Rightarrow> string \<Rightarrow> string" where
  "trim_end_matches p s = strip_many_end [p] s"

definition trim_matches :: "string \<Rightarrow> string \<Rightarrow> string" where
  "trim_matches p s = trim_start_matches p (trim_end_matches p s)"

definition trim_start :: "string \<Rightarrow> string" where
  "trim_start s = strip_many ws_encodings s"

definition trim_end :: "string \<Rightarrow> string" where
  "trim_end s = strip_many_end ws_encodings s"

definition trim :: "string \<Rightarrow> string" where
  "trim s = trim_start (trim_end s)"

lemma strip_many_stuck: "strip_one ps s = None \<Longrightarrow> strip_many ps s = s"
  by (simp add: strip_many.simps)

lemma strip_many_done [simp]: "strip_one ps (strip_many ps s) = None"
proof (induction ps s rule: strip_many.induct)
  case (1 ps s)
  then show ?case by (cases "strip_one ps s") (auto simp: strip_many.simps [of ps s])
qed

lemma strip_many_suffix: "\<exists>r. s = r @ strip_many ps s"
proof (induction ps s rule: strip_many.induct)
  case (1 ps s)
  show ?case
  proof (cases "strip_one ps s")
    case (Some s')
    then obtain r where "s = r @ s'"
      by (auto simp: strip_one_def) (metis append_take_drop_id)
    moreover from Some 1 obtain r' where "s' = r' @ strip_many ps s'" by blast
    moreover have "strip_many ps s = strip_many ps s'"
      using Some by (simp add: strip_many.simps [of ps s])
    ultimately have "s = (r @ r') @ strip_many ps s" by simp
    then show ?thesis by blast
  qed (auto simp: strip_many.simps [of ps s])
qed

lemma strip_one_Nil [simp]: "strip_one ps [] = None"
  by (auto simp: strip_one_def find_None_iff starts_with_def)

lemma strip_many_Nil [simp]: "strip_many ps [] = []"
  by (simp add: strip_many.simps)

lemma strip_one_None_prefix:
  assumes "strip_one ps (s @ t) = None" shows "strip_one ps s = None"
  using assms by (auto simp: strip_one_def find_None_iff dest: starts_with_trans_append)

lemma strip_many_end_Nil [simp]: "strip_many_end ps [] = []"
  by (simp add: strip_many_end_def)

lemma strip_many_end_prefix: "\<exists>r. s = strip_many_end ps s @ r"
proof -
  obtain r where "rev s = r @ strip_many (map rev ps) (rev s)"
    using strip_many_suffix by blast
  then have "s = strip_many_end ps s @ rev r"
    by (metis rev_append rev_rev_ident strip_many_end_def)
  then show ?thesis by blast
qed

lemma trim_Nil [simp]: "trim [] = []"
  by (simp add: trim_def trim_start_def trim_end_def)

lemma strip_many_end_idem [simp]: "strip_many_end ps (strip_many_end ps s) = strip_many_end ps s"
  by (simp add: strip_many_end_def strip_many_stuck)

lemma strip_many_idem [simp]: "strip_many ps (strip_many ps s) = strip_many ps s"
  by (simp add: strip_many_stuck)

text \<open>Stripping the front keeps the end stripped: the result is a suffix of a stripped string.\<close>

lemma strip_one_end_suffix:
  assumes "strip_one (map rev ps) (rev (r @ s)) = None"
  shows "strip_one (map rev ps) (rev s) = None"
  using assms by (auto intro: strip_one_None_prefix)

lemma trim_idem [simp]: "trim (trim s) = trim s"
proof -
  let ?e = "trim_end s"
  obtain r where r: "?e = r @ trim s"
    using strip_many_suffix [of ?e ws_encodings] by (auto simp: trim_def trim_start_def)
  have "strip_one (map rev ws_encodings) (rev ?e) = None"
    by (simp add: trim_end_def strip_many_end_def)
  then have "strip_one (map rev ws_encodings) (rev (trim s)) = None"
    using r strip_one_end_suffix [of ws_encodings r "trim s"] by simp
  then have "trim_end (trim s) = trim s"
    by (simp add: trim_end_def strip_many_end_def strip_many_stuck)
  moreover have "trim_start (trim s) = trim s"
    by (simp add: trim_def trim_start_def)
  ultimately show ?thesis by (simp add: trim_def)
qed

text \<open>Printable ASCII characters other than the space never take part in whitespace.\<close>

definition graphic :: "char \<Rightarrow> bool" where
  "graphic c \<longleftrightarrow> 33 \<le> code_of c \<and> code_of c \<le> 126"

lemma ws_not_graphic:
  "list_all (\<lambda>w. w \<noteq> [] \<and> \<not> graphic (hd w) \<and> \<not> graphic (last w)) ws_encodings"
  by code_simp

lemma strip_one_hd:
  assumes "\<And>p. p \<in> set ps \<Longrightarrow> p \<noteq> [] \<Longrightarrow> s \<noteq> [] \<Longrightarrow> hd p \<noteq> hd s"
  shows "strip_one ps s = None"
  using assms by (cases s) (fastforce simp: strip_one_def find_None_iff neq_Nil_conv)+

lemma strip_one_ws_graphic: "s = [] \<or> graphic (hd s) \<Longrightarrow> strip_one ws_encodings s = None"
  using ws_not_graphic by (intro strip_one_hd) (auto simp: list_all_iff)

lemma strip_one_rev_ws_graphic:
  "s = [] \<or> graphic (hd s) \<Longrightarrow> strip_one (map rev ws_encodings) s = None"
  using ws_not_graphic by (intro strip_one_hd) (auto simp: list_all_iff hd_rev)

lemma trim_start_graphic: "s = [] \<or> graphic (hd s) \<Longrightarrow> trim_start s = s"
  by (simp add: trim_start_def strip_many_stuck strip_one_ws_graphic)

lemma trim_end_graphic: "s = [] \<or> graphic (last s) \<Longrightarrow> trim_end s = s"
  by (simp add: trim_end_def strip_many_end_def strip_many_stuck strip_one_rev_ws_graphic hd_rev)

lemma trim_graphic: "s = [] \<or> graphic (hd s) \<and> graphic (last s) \<Longrightarrow> trim s = s"
  by (auto simp: trim_def trim_start_graphic trim_end_graphic)

lemma trim_all_graphic: "\<forall>c \<in> set s. graphic c \<Longrightarrow> trim s = s"
  by (rule trim_graphic) (cases s; auto)

end
