(* ===== verification/Rust_Text.thy ===== *)
theory Rust_Text
  imports Rust_Str
begin

text \<open>
  Splitting, joining and replacing, lines and words, numbers in text, letter case and lossy
  UTF-8 decoding, as Rust's standard library does them.
\<close>

section \<open>Splitting at a character\<close>

fun split_on :: "char \<Rightarrow> string \<Rightarrow> string list" where
  "split_on c [] = [[]]"
| "split_on c (x # xs) =
     (if x = c then [] # split_on c xs
      else (case split_on c xs of [] \<Rightarrow> [[x]] | y # ys \<Rightarrow> (x # y) # ys))"

definition split_once :: "char \<Rightarrow> string \<Rightarrow> (string \<times> string) option" where
  "split_once c s =
     (case dropWhile (\<lambda>x. x \<noteq> c) s of
        [] \<Rightarrow> None
      | _ # r \<Rightarrow> Some (takeWhile (\<lambda>x. x \<noteq> c) s, r))"

definition rsplit_once :: "char \<Rightarrow> string \<Rightarrow> (string \<times> string) option" where
  "rsplit_once c s =
     map_option (\<lambda>(a, b). (rev b, rev a)) (split_once c (rev s))"

fun join :: "string \<Rightarrow> string list \<Rightarrow> string" where
  "join sep [] = []"
| "join sep [x] = x"
| "join sep (x # y # zs) = x @ sep @ join sep (y # zs)"

lemma split_on_not_Nil [simp]: "split_on c s \<noteq> []"
  by (induction s) (auto split: list.splits)

lemma split_on_no [simp]: "c \<notin> set s \<Longrightarrow> split_on c s = [s]"
  by (induction s) auto

lemma split_on_append [simp]: "c \<notin> set a \<Longrightarrow> split_on c (a @ c # b) = a # split_on c b"
  by (induction a) auto

lemma split_on_pieces: "p \<in> set (split_on c s) \<Longrightarrow> c \<notin> set p"
  by (induction s arbitrary: p) (auto split: list.splits if_splits)

lemma join_Cons: "zs \<noteq> [] \<Longrightarrow> join sep (x # zs) = x @ sep @ join sep zs"
  by (cases zs) auto

lemma set_join: "c \<in> set (join sep xs) \<Longrightarrow> c \<in> set sep \<or> (\<exists>x \<in> set xs. c \<in> set x)"
  by (induction sep xs rule: join.induct) auto

lemma join_split_on: "join [c] (split_on c s) = s"
proof (induction s)
  case (Cons x xs)
  obtain y ys where y: "split_on c xs = y # ys" by (cases "split_on c xs") auto
  with Cons show ?case
    by (cases ys) auto
qed simp

lemma split_on_join:
  "xs \<noteq> [] \<Longrightarrow> (\<And>x. x \<in> set xs \<Longrightarrow> c \<notin> set x) \<Longrightarrow> split_on c (join [c] xs) = xs"
  by (induction "[c]" xs rule: join.induct) auto

lemma split_once_append [simp]: "c \<notin> set a \<Longrightarrow> split_once c (a @ c # b) = Some (a, b)"
  by (simp add: split_once_def takeWhile_append dropWhile_append)

lemma split_once_Cons:
  "split_once c (x # s) =
     (if x = c then Some ([], s)
      else map_option (\<lambda>(a, b). (x # a, b)) (split_once c s))"
  by (simp add: split_once_def del: dropWhile_eq_Nil_conv split: list.split)

lemma split_once_Nil [simp]: "split_once c [] = None"
  by (simp add: split_once_def)

lemma split_once_None [simp]: "split_once c s = None \<longleftrightarrow> c \<notin> set s"
  by (induction s) (auto simp: split_once_Cons)

lemma split_once_no [simp]: "c \<notin> set s \<Longrightarrow> split_once c s = None"
  by simp

lemma split_once_obtain: "c \<in> set s \<Longrightarrow> \<exists>a b. split_once c s = Some (a, b)"
  by (cases "split_once c s") auto

lemma split_once_SomeD: "split_once c s = Some (a, b) \<Longrightarrow> s = a @ c # b \<and> c \<notin> set a"
  by (induction s arbitrary: a) (auto simp: split_once_Cons split: if_splits)

lemma rsplit_once_append [simp]: "c \<notin> set b \<Longrightarrow> rsplit_once c (a @ c # b) = Some (a, b)"
  by (simp add: rsplit_once_def)

lemma rsplit_once_Nil [simp]: "rsplit_once c [] = None"
  by (simp add: rsplit_once_def)

lemma rsplit_once_None [simp]: "rsplit_once c s = None \<longleftrightarrow> c \<notin> set s"
  by (simp add: rsplit_once_def)

section \<open>Splitting at a string, replacing\<close>

text \<open>\<^verbatim>\<open>s.split(pat)\<close> and \<^verbatim>\<open>s.replace(pat, to)\<close> for a non-empty pattern.\<close>

function split_str :: "string \<Rightarrow> string \<Rightarrow> string list" where
  "split_str pat s =
     (case find_str pat s of
        None \<Rightarrow> [s]
      | Some i \<Rightarrow> if pat = [] then [s] else take i s # split_str pat (drop (i + length pat) s))"
  by pat_completeness auto

lemma find_str_bound: "find_str pat s = Some i \<Longrightarrow> i + length pat \<le> length s"
  by (induction s arbitrary: i) (auto split: if_splits dest: starts_with_length)

termination split_str
  by (relation "measure (\<lambda>(p, s). length s)")
     (auto dest!: find_str_bound, metis add_gr_0 diff_less length_greater_0_conv less_le_trans)

declare split_str.simps [simp del]

definition replace_str :: "string \<Rightarrow> string \<Rightarrow> string \<Rightarrow> string" where
  "replace_str pat to s = join to (split_str pat s)"

definition replace_char :: "char \<Rightarrow> string \<Rightarrow> string \<Rightarrow> string" where
  "replace_char c to s = concat (map (\<lambda>x. if x = c then to else [x]) s)"

lemma replace_char_simps [simp]:
  "replace_char c to [] = []"
  "replace_char c to (x # s) = (if x = c then to else [x]) @ replace_char c to s"
  by (simp_all add: replace_char_def)

lemma replace_char_single: "replace_char c [d] s = map (\<lambda>x. if x = c then d else x) s"
  by (induction s) auto

lemma replace_char_absent: "c \<notin> set s \<Longrightarrow> replace_char c to s = s"
  by (induction s) auto

lemma replace_str_absent: "\<not> contains s pat \<Longrightarrow> replace_str pat to s = s"
  by (simp add: replace_str_def contains_def split_str.simps)

section \<open>Lines and words\<close>

text \<open>
  \<^verbatim>\<open>lines()\<close>: split at each line feed, drop an empty last piece, and strip one carriage return
  from every piece that a line feed ended.
\<close>

definition nl :: char where "nl = CHR 0x0A"
definition cr :: char where "cr = CHR 0x0D"

definition strip_cr :: "string \<Rightarrow> string" where
  "strip_cr l = (if l \<noteq> [] \<and> last l = cr then butlast l else l)"

definition lines :: "string \<Rightarrow> string list" where
  "lines s =
     (let ps = split_on nl s
      in map strip_cr (butlast ps) @ (if last ps = [] then [] else [last ps]))"

text \<open>\<^verbatim>\<open>split_whitespace()\<close>: the maximal runs of non-whitespace.\<close>

fun until_ws :: "string \<Rightarrow> string" where
  "until_ws [] = []"
| "until_ws (c # s) = (if strip_one ws_encodings (c # s) = None then c # until_ws s else [])"

function words :: "string \<Rightarrow> string list" where
  "words s =
     (let t = trim_start s
      in if t = [] then [] else until_ws t # words (drop (length (until_ws t)) t))"
  by pat_completeness auto

lemma length_trim_start: "length (trim_start s) \<le> length s"
  by (metis length_append le_add2 strip_many_suffix trim_start_def)

lemma until_ws_trim_start: "trim_start s \<noteq> [] \<Longrightarrow> until_ws (trim_start s) \<noteq> []"
  using strip_many_done [of ws_encodings s]
  by (cases "trim_start s") (simp_all add: trim_start_def del: strip_many_done)

termination words
proof (relation "measure length", simp, clarsimp)
  fix s assume ne: "trim_start s \<noteq> []"
  have "0 < length (until_ws (trim_start s))" using until_ws_trim_start [OF ne] by simp
  moreover have "length (trim_start s) \<le> length s" by (rule length_trim_start)
  moreover have "0 < length (trim_start s)" using ne by simp
  ultimately show "length (trim_start s) - length (until_ws (trim_start s)) < length s"
    by linarith
qed

declare words.simps [simp del]

lemma until_ws_graphic:
  assumes "\<forall>c \<in> set w. graphic c" and "r = [] \<or> strip_one ws_encodings r \<noteq> None"
  shows "until_ws (w @ r) = w"
  using assms
proof (induction w)
  case Nil
  then show ?case by (cases r) auto
next
  case (Cons c w)
  then show ?case by (simp add: strip_one_ws_graphic)
qed

lemma words_graphic:
  assumes "\<forall>c \<in> set w. graphic c" and "w \<noteq> []" and "r = [] \<or> strip_one ws_encodings r \<noteq> None"
  shows "words (w @ r) = w # words r"
proof -
  have "trim_start (w @ r) = w @ r"
    using assms(1,2) by (intro trim_start_graphic) (cases w; auto)
  then show ?thesis
    using assms(2) until_ws_graphic [OF assms(1,3)] by (subst words.simps) (simp add: Let_def)
qed

lemma words_Nil [simp]: "words [] = []"
  by (subst words.simps) (simp add: trim_start_def)

lemma space_is_ws [simp]: "strip_one ws_encodings (CHR '' '' # s) \<noteq> None"
proof -
  have "[CHR '' ''] \<in> set ws_encodings" by code_simp
  then show ?thesis by (auto simp: strip_one_def find_None_iff intro!: bexI [of _ "'' ''"])
qed

lemma strip_space: "strip_one ws_encodings (CHR '' '' # s) = Some s"
  by (simp add: strip_one_def ws_encodings_def starts_with_def)

lemma words_space [simp]: "words (CHR '' '' # s) = words s"
proof -
  have "trim_start (CHR '' '' # s) = trim_start s"
    by (subst (1 2) trim_start_def, subst strip_many.simps) (simp add: strip_space)
  then show ?thesis by (subst (1 2) words.simps) simp
qed

lemma lines_first: "nl \<notin> set l \<Longrightarrow> lines (l @ nl # r) = strip_cr l # lines r"
  by (simp add: lines_def Let_def)

section \<open>Letter case\<close>

definition ascii_lower :: "char \<Rightarrow> char" where
  "ascii_lower c =
     (if 65 \<le> code_of c \<and> code_of c \<le> 90 then char_of (code_of c + 32) else c)"

definition to_ascii_lowercase :: "string \<Rightarrow> string" where
  "to_ascii_lowercase s = map ascii_lower s"

definition eq_ignore_ascii_case :: "string \<Rightarrow> string \<Rightarrow> bool" where
  "eq_ignore_ascii_case a b \<longleftrightarrow> to_ascii_lowercase a = to_ascii_lowercase b"

text \<open>
  \<^verbatim>\<open>to_lowercase()\<close>, for the one use the sources make of it, the search for an ASCII text in the
  result. Exact where the lower case contains an ASCII character: the ASCII letters, U+212A
  KELVIN SIGN (\<^verbatim>\<open>k\<close>) and U+0130 (\<^verbatim>\<open>i\<close> and U+0307). Every other character is kept: its lower
  case has no ASCII byte, so no search for an ASCII text sees the difference.
\<close>

fun to_lowercase :: "string \<Rightarrow> string" where
  "to_lowercase [] = []"
| "to_lowercase (c # s) =
     (if starts_with (c # s) [CHR 0xE2, CHR 0x84, CHR 0xAA] then CHR ''k'' # to_lowercase (drop 2 s)
      else if starts_with (c # s) [CHR 0xC4, CHR 0xB0]
      then [CHR ''i'', CHR 0xCC, CHR 0x87] @ to_lowercase (drop 1 s)
      else ascii_lower c # to_lowercase s)"

section \<open>Numbers in text\<close>

definition digit_char :: "nat \<Rightarrow> char" where
  "digit_char d = char_of (if d < 10 then 48 + d else 87 + d)"

definition upper_digit_char :: "nat \<Rightarrow> char" where
  "upper_digit_char d = char_of (if d < 10 then 48 + d else 55 + d)"

definition digit_val :: "nat \<Rightarrow> char \<Rightarrow> nat option" where
  "digit_val radix c =
     (let n = code_of c;
          d = (if 48 \<le> n \<and> n \<le> 57 then n - 48
               else if 97 \<le> n \<and> n \<le> 122 then n - 87
               else if 65 \<le> n \<and> n \<le> 90 then n - 55
               else radix)
      in if d < radix then Some d else None)"

fun digits_val :: "nat \<Rightarrow> nat \<Rightarrow> string \<Rightarrow> nat option" where
  "digits_val radix acc [] = Some acc"
| "digits_val radix acc (c # s) =
     (case digit_val radix c of None \<Rightarrow> None | Some d \<Rightarrow> digits_val radix (acc * radix + d) s)"

text \<open>
  \<^verbatim>\<open>from_str_radix\<close> of an unsigned type: an optional plus sign, then at least one digit, and no
  overflow of the type (a minus sign is not a digit).
\<close>

definition parse_unsigned :: "nat \<Rightarrow> nat \<Rightarrow> string \<Rightarrow> nat option" where
  "parse_unsigned radix limit s =
     (let ds = (if starts_with s ''+'' then drop 1 s else s)
      in if ds = [] then None
         else case digits_val radix 0 ds of
                None \<Rightarrow> None
              | Some n \<Rightarrow> if n < limit then Some n else None)"

definition parse_u16 :: "string \<Rightarrow> u16 option" where
  "parse_u16 s = map_option of_nat (parse_unsigned 10 (2 ^ 16) s)"

definition parse_u32 :: "string \<Rightarrow> u32 option" where
  "parse_u32 s = map_option of_nat (parse_unsigned 10 (2 ^ 32) s)"

definition parse_i32 :: "string \<Rightarrow> int option" where
  "parse_i32 s =
     (if starts_with s ''-''
      then (if drop 1 s = [] then None
            else case digits_val 10 0 (drop 1 s) of
                   None \<Rightarrow> None
                 | Some n \<Rightarrow> if n \<le> 2 ^ 31 then Some (- int n) else None)
      else map_option int (parse_unsigned 10 (2 ^ 31) s))"

text \<open>Decimal display of an unsigned integer.\<close>

fun show_nat :: "nat \<Rightarrow> string" where
  "show_nat n = (if n < 10 then [digit_char n] else show_nat (n div 10) @ [digit_char (n mod 10)])"

declare show_nat.simps [simp del]

abbreviation show_word :: "'a::len word \<Rightarrow> string" where
  "show_word w \<equiv> show_nat (unat w)"

lemma digit_val_digit_char: "d < 10 \<Longrightarrow> digit_val 10 (digit_char d) = Some d"
  by (simp add: digit_val_def digit_char_def Let_def)

lemma digits_val_append:
  "digits_val r acc (a @ b) =
     (case digits_val r acc a of None \<Rightarrow> None | Some n \<Rightarrow> digits_val r n b)"
  by (induction a arbitrary: acc) (auto split: option.splits)

lemma digits_val_show_nat: "digits_val 10 0 (show_nat n) = Some n"
proof (induction n rule: show_nat.induct)
  case (1 n)
  show ?case
  proof (cases "n < 10")
    case True
    then show ?thesis by (subst show_nat.simps) (simp add: digit_val_digit_char)
  next
    case False
    with 1 show ?thesis
      by (subst show_nat.simps) (simp add: digits_val_append digit_val_digit_char)
  qed
qed

lemma show_nat_not_Nil [simp]: "show_nat n \<noteq> []"
  by (subst show_nat.simps) simp

definition is_digit :: "char \<Rightarrow> bool" where
  "is_digit c \<longleftrightarrow> 48 \<le> code_of c \<and> code_of c \<le> 57"

lemma is_digit_digit_char: "d < 10 \<Longrightarrow> is_digit (digit_char d)"
  by (simp add: is_digit_def digit_char_def)

lemma show_nat_digits: "c \<in> set (show_nat n) \<Longrightarrow> is_digit c"
proof (induction n arbitrary: c rule: show_nat.induct)
  case (1 n)
  then show ?case
    by (cases "n < 10") (auto simp: show_nat.simps [of n] is_digit_digit_char)
qed

lemma is_digit_graphic: "is_digit c \<Longrightarrow> graphic c"
  by (auto simp: is_digit_def graphic_def)

lemma digit_neq:
  "is_digit c \<Longrightarrow> \<not> (48 \<le> code_of d \<and> code_of d \<le> 57) \<Longrightarrow> c \<noteq> d"
  by (auto simp: is_digit_def)

lemma show_nat_no_char:
  "\<not> is_digit c \<Longrightarrow> c \<notin> set (show_nat n)"
  using show_nat_digits by blast

lemma parse_unsigned_show: "n < limit \<Longrightarrow> parse_unsigned 10 limit (show_nat n) = Some n"
proof -
  have "CHR ''+'' \<notin> set (show_nat n)"
    by (rule show_nat_no_char) (simp add: is_digit_def)
  then have "\<not> starts_with (show_nat n) ''+''"
    by (auto simp: starts_with_iff)
  moreover assume "n < limit"
  ultimately show ?thesis by (simp add: parse_unsigned_def digits_val_show_nat)
qed

lemma parse_show_u16 [simp]: "parse_u16 (show_word w) = Some w"
proof -
  have "unat w < 2 ^ 16" using unsigned_less [of w] by simp
  then show ?thesis by (simp add: parse_u16_def parse_unsigned_show)
qed

lemma parse_show_u32 [simp]: "parse_u32 (show_word w) = Some w"
proof -
  have "unat w < 2 ^ 32" using unsigned_less [of w] by simp
  then show ?thesis by (simp add: parse_u32_def parse_unsigned_show)
qed

lemma show_nat_inj: "show_nat m = show_nat n \<Longrightarrow> m = n"
  by (metis digits_val_show_nat option.inject)

end
