(* ===== verification/Config.thy ===== *)
theory Config
  imports Files Rust_Text
begin

text \<open>
  \<^verbatim>\<open>config.rs\<close>, and the identity provider settings of \<^verbatim>\<open>auth.rs\<close> a configuration caches: the
  settings records, their defaults, loading and saving, and the service addresses derived from
  what the user typed. The serialiser \<open>ser\<close> and parser \<open>de\<close> are \<^verbatim>\<open>serde_json\<close>'s.
\<close>

section \<open>Identity provider settings\<close>

record oidc =
  oidc_issuer :: string
  oidc_client_id :: string
  oidc_resource :: string
  oidc_scope :: string
  oidc_scopes :: string
  oidc_redirect_port :: u16

definition oidc_default :: oidc where
  "oidc_default = \<lparr>oidc_issuer = [], oidc_client_id = [], oidc_resource = [], oidc_scope = [],
     oidc_scopes = [], oidc_redirect_port = 0\<rparr>"

definition redirect_uri :: "u16 \<Rightarrow> string" where
  "redirect_uri port = ''http://127.0.0.1:'' @ show_word port @ ''/callback''"

definition oidc_is_complete :: "oidc \<Rightarrow> bool" where
  "oidc_is_complete s \<longleftrightarrow> trim (oidc_issuer s) \<noteq> [] \<and> trim (oidc_client_id s) \<noteq> []"

definition device_endpoint :: "oidc \<Rightarrow> string" where
  "device_endpoint s = trim_end_matches ''/'' (oidc_issuer s) @ ''/device/auth''"

definition token_endpoint :: "oidc \<Rightarrow> string" where
  "token_endpoint s = trim_end_matches ''/'' (oidc_issuer s) @ ''/token''"

definition requested_scopes :: "oidc \<Rightarrow> string" where
  "requested_scopes s =
     (if trim (oidc_scopes s) \<noteq> [] then trim (oidc_scopes s)
      else join '' ''
        ([''openid'', ''offline_access''] @
         (if trim (oidc_scope s) \<noteq> [] then [trim (oidc_scope s)] else [])))"

section \<open>The configuration\<close>

record config =
  cfg_host :: string
  cfg_port :: u16
  cfg_user :: string
  cfg_local_port :: u16
  cfg_key_path :: string
  cfg_autostart :: bool
  cfg_manage_spotify :: bool
  cfg_enroll_base :: string
  cfg_oidc :: oidc
  cfg_proxy :: string
  cfg_transport :: string
  cfg_proxy_last_good :: string
  cfg_keep_log :: bool
  cfg_update_check_hours :: u32
  cfg_theme :: string
  cfg_accent :: string
  cfg_transparency :: bool
  cfg_relay_port :: u16

definition default_config :: config where
  "default_config =
     \<lparr>cfg_host = [], cfg_port = 2223, cfg_user = ''tunnel'', cfg_local_port = 1080,
      cfg_key_path = [], cfg_autostart = False, cfg_manage_spotify = False,
      cfg_enroll_base = [], cfg_oidc = oidc_default, cfg_proxy = [], cfg_transport = ''auto'',
      cfg_proxy_last_good = [], cfg_keep_log = True, cfg_update_check_hours = 24,
      cfg_theme = ''system'', cfg_accent = ''windows'', cfg_transparency = True,
      cfg_relay_port = 12223\<rparr>"

definition config_path :: "path \<Rightarrow> path" where
  "config_path dir = path_join dir ''config.json''"

definition config_load ::
    "(string \<Rightarrow> config option) \<Rightarrow> io_env \<Rightarrow> path \<Rightarrow> store \<Rightarrow> config" where
  "config_load de env dir st =
     (case read_to_string env (config_path dir) st of
        Err _ \<Rightarrow> default_config
      | Ok s \<Rightarrow> (case de s of None \<Rightarrow> default_config | Some c \<Rightarrow> c))"

definition config_save ::
    "(config \<Rightarrow> string result) \<Rightarrow> io_env \<Rightarrow> path \<Rightarrow> config \<Rightarrow> store \<Rightarrow> unit result \<times> store" where
  "config_save ser env dir c st =
     (case create_dir_all env dir of
        Err e \<Rightarrow> (Err e, st)
      | Ok _ \<Rightarrow>
          (case ser c of
             Err e \<Rightarrow> (Err e, st)
           | Ok body \<Rightarrow> write_file env (config_path dir) body st))"

definition config_is_complete :: "config \<Rightarrow> bool" where
  "config_is_complete c \<longleftrightarrow>
     trim (cfg_host c) \<noteq> [] \<and> trim (cfg_user c) \<noteq> [] \<and> 0 < cfg_port c"

section \<open>Service addresses\<close>

definition enroll_base_url :: "config \<Rightarrow> string" where
  "enroll_base_url c =
     (let b = trim_end_matches ''/'' (trim (cfg_enroll_base c))
      in if b = [] then []
         else if starts_with b ''http://'' \<or> starts_with b ''https://'' then b
         else ''https://'' @ b)"

definition enroll_url :: "config \<Rightarrow> string" where
  "enroll_url c =
     (let b = enroll_base_url c in if b = [] then [] else b @ ''/enroll'')"

definition discovery_url :: "config \<Rightarrow> string" where
  "discovery_url c =
     (let b = enroll_base_url c in if b = [] then [] else b @ ''/config'')"

lemma strip_one_single: "p \<noteq> [] \<Longrightarrow> strip_one [p] s = None \<longleftrightarrow> \<not> starts_with s p"
  by (simp add: strip_one_def)

lemma trim_end_matches_end: "p \<noteq> [] \<Longrightarrow> \<not> ends_with (trim_end_matches p s) p"
  using strip_many_done [of "[rev p]" "rev s"]
  by (simp add: trim_end_matches_def strip_many_end_def ends_with_def strip_one_single
      del: strip_many_done)

lemma trim_end_matches_snoc: "p \<noteq> [] \<Longrightarrow> trim_end_matches p (s @ p) = trim_end_matches p s"
  unfolding trim_end_matches_def strip_many_end_def
  by (simp, subst strip_many.simps) (simp add: strip_one_def starts_with_def)

lemma trim_end_matches_prefix: "\<exists>r. s = trim_end_matches p s @ r"
  unfolding trim_end_matches_def by (rule strip_many_end_prefix)

lemma trim_end_matches_stuck: "p \<noteq> [] \<Longrightarrow> \<not> ends_with s p \<Longrightarrow> trim_end_matches p s = s"
  by (simp add: trim_end_matches_def strip_many_end_def ends_with_def strip_one_single
      strip_many_stuck)

lemma ends_with_append: "b \<noteq> [] \<Longrightarrow> ends_with (a @ b) [x] = ends_with b [x]"
  by (cases b rule: rev_cases) (auto simp: ends_with_def)

lemma strip_many_char: "strip_many [[x]] s = dropWhile ((=) x) s"
  by (induction s) (auto simp: strip_many.simps [of "[[x]]" "_ # _"] strip_one_def starts_with_def)

lemma trim_end_matches_Nil: "trim_end_matches [x] s = [] \<longleftrightarrow> list_all ((=) x) s"
  by (auto simp: trim_end_matches_def strip_many_end_def strip_many_char dropWhile_eq_Nil_conv list_all_iff)

lemma enroll_base_url_empty: "enroll_base_url c = [] \<longleftrightarrow> list_all ((=) (CHR ''/'')) (trim (cfg_enroll_base c))"
  by (simp add: enroll_base_url_def Let_def trim_end_matches_Nil)

lemma enroll_base_url_http:
  assumes ne: "enroll_base_url c \<noteq> []"
  shows "\<not> ends_with (enroll_base_url c) ''/'' \<and>
     (starts_with (enroll_base_url c) ''https://'' \<or>
      starts_with (enroll_base_url c) ''http://'' \<and> starts_with (trim (cfg_enroll_base c)) ''http://'')"
proof -
  define t where "t = trim (cfg_enroll_base c)"
  define b where "b = trim_end_matches ''/'' t"
  have no_slash: "\<not> ends_with b ''/''" by (simp add: b_def trim_end_matches_end)
  obtain r where r: "t = b @ r" using trim_end_matches_prefix b_def by blast
  have url: "enroll_base_url c =
      (if b = [] then [] else if starts_with b ''http://'' \<or> starts_with b ''https://'' then b
       else ''https://'' @ b)"
    by (simp add: enroll_base_url_def b_def t_def Let_def)
  with ne no_slash have "\<not> ends_with (enroll_base_url c) ''/''"
    using ends_with_append [of b "''https://''"] by (simp split: if_splits)
  moreover have "starts_with (enroll_base_url c) ''https://'' \<or>
      starts_with (enroll_base_url c) ''http://'' \<and> starts_with t ''http://''"
    using url ne r starts_with_trans_append by (auto split: if_splits)
  ultimately show ?thesis by (simp add: t_def)
qed

text \<open>
  (C28) What the service address is, for whatever the user typed: empty exactly when nothing is left
  but slashes once the blanks around it are trimmed, and then there is no address for \<^verbatim>\<open>/enroll\<close> and
  \<^verbatim>\<open>/config\<close> either; otherwise an http or https URL that does not end in a slash, so that \<^verbatim>\<open>/enroll\<close>
  and \<^verbatim>\<open>/config\<close> are appended with exactly one; and it is plain http only when the user typed
  \<^verbatim>\<open>http://\<close>.
\<close>

theorem enroll_base_url_shape:
  "(enroll_base_url c = [] \<longleftrightarrow> list_all ((=) (CHR ''/'')) (trim (cfg_enroll_base c))) \<and>
   (enroll_base_url c = [] \<longrightarrow> enroll_url c = [] \<and> discovery_url c = []) \<and>
   (enroll_base_url c \<noteq> [] \<longrightarrow>
     \<not> ends_with (enroll_base_url c) ''/'' \<and>
     (starts_with (enroll_base_url c) ''https://'' \<or>
      starts_with (enroll_base_url c) ''http://'' \<and> starts_with (trim (cfg_enroll_base c)) ''http://'') \<and>
     enroll_url c = enroll_base_url c @ ''/enroll'' \<and>
     discovery_url c = enroll_base_url c @ ''/config'')"
  using enroll_base_url_http [of c]
  by (simp add: enroll_base_url_empty enroll_url_def discovery_url_def Let_def)

theorem enroll_base_url_shape_witness:
  "enroll_url (default_config\<lparr>cfg_enroll_base := '' tunnel.example.com// ''\<rparr>)
     = ''https://tunnel.example.com/enroll'' \<and>
   enroll_url (default_config\<lparr>cfg_enroll_base := '' // ''\<rparr>) = []"
proof -
  let ?c = "default_config\<lparr>cfg_enroll_base := '' tunnel.example.com// ''\<rparr>"
  let ?d = "default_config\<lparr>cfg_enroll_base := '' // ''\<rparr>"
  have "enroll_base_url ?c = ''https://tunnel.example.com''" by code_simp
  moreover have "list_all ((=) (CHR ''/'')) (trim (cfg_enroll_base ?d))" by code_simp
  ultimately show ?thesis using enroll_base_url_shape [of ?c] enroll_base_url_shape [of ?d] by simp
qed

text \<open>
  Loading never fails, and a configuration that was saved is the one loaded back: when
  saving succeeds and the parser reads what the serialiser wrote, \<^verbatim>\<open>Config::load\<close> returns the
  configuration itself; when saving fails before the file is opened, the load is unchanged.
\<close>

theorem config_save_load:
  assumes "ser c = Ok body" and "de body = Some c" and "read_error env (config_path dir) = None"
    and "config_save ser env dir c st = (r, st')"
  shows "(r = Ok () \<longrightarrow> config_load de env dir st' = c) \<and>
         (\<forall>e. mkdir_error env dir = Some e \<or> write_end env (config_path dir) = CreateFails e \<longrightarrow>
              config_load de env dir st' = config_load de env dir st)"
  using assms
  by (auto simp: config_save_def config_load_def create_dir_all_def write_file_def
        read_to_string_written split: option.splits write_outcome.splits)

theorem config_save_load_witness:
  "config_load (\<lambda>s. if s = ''{}'' then Some default_config else None) good_env [''app'']
     (snd (config_save (\<lambda>c. Ok ''{}'') good_env [''app''] default_config (\<lambda>_. None)))
   = default_config"
proof -
  let ?de = "\<lambda>s. if s = ''{}'' then Some default_config else None"
  have r: "config_save (\<lambda>c. Ok ''{}'') good_env [''app''] default_config (\<lambda>_. None)
      = (Ok (), (\<lambda>_. None)(config_path [''app''] \<mapsto> ''{}''))"
    by (simp add: config_save_def create_dir_all_def write_file_def)
  show ?thesis
    using config_save_load [OF _ _ _ r, of "''{}''" ?de] by (simp add: r)
qed

end
