(* ===== verification/Utf8.thy ===== *)
theory Utf8
  imports Rust_Text
begin

text \<open>
  UTF-8 on byte strings: the character boundaries that a Rust slice checks, validity, and
  \<^verbatim>\<open>String::from_utf8_lossy\<close>, which puts U+FFFD for every maximal part of an ill-formed
  sequence.
\<close>

definition byte_at :: "string \<Rightarrow> nat \<Rightarrow> nat" where
  "byte_at s i = (if i < length s then code_of (s ! i) else 0)"

definition continuation :: "nat \<Rightarrow> bool" where
  "continuation b \<longleftrightarrow> 128 \<le> b \<and> b < 192"

definition char_boundary :: "string \<Rightarrow> nat \<Rightarrow> bool" where
  "char_boundary s i \<longleftrightarrow>
     i = 0 \<or> i = length s \<or> i < length s \<and> \<not> continuation (byte_at s i)"

definition second_of_3 :: "nat \<Rightarrow> nat \<Rightarrow> bool" where
  "second_of_3 b c \<longleftrightarrow>
     (b = 0xE0 \<and> 0xA0 \<le> c \<and> c \<le> 0xBF) \<or>
     (0xE1 \<le> b \<and> b \<le> 0xEC \<and> 0x80 \<le> c \<and> c \<le> 0xBF) \<or>
     (b = 0xED \<and> 0x80 \<le> c \<and> c \<le> 0x9F) \<or>
     (0xEE \<le> b \<and> b \<le> 0xEF \<and> 0x80 \<le> c \<and> c \<le> 0xBF)"

definition second_of_4 :: "nat \<Rightarrow> nat \<Rightarrow> bool" where
  "second_of_4 b c \<longleftrightarrow>
     (b = 0xF0 \<and> 0x90 \<le> c \<and> c \<le> 0xBF) \<or>
     (0xF1 \<le> b \<and> b \<le> 0xF3 \<and> 0x80 \<le> c \<and> c \<le> 0xBF) \<or>
     (b = 0xF4 \<and> 0x80 \<le> c \<and> c \<le> 0x8F)"

text \<open>
  The character or the ill-formed part at the head of a string: whether it is well formed, and
  its length in bytes.
\<close>

definition utf8_step :: "string \<Rightarrow> bool \<times> nat" where
  "utf8_step s =
     (let b = byte_at s 0; b1 = byte_at s 1; b2 = byte_at s 2; b3 = byte_at s 3
      in if b < 0x80 then (True, 1)
         else if 0xC2 \<le> b \<and> b \<le> 0xDF then if continuation b1 then (True, 2) else (False, 1)
         else if 0xE0 \<le> b \<and> b \<le> 0xEF then
           if \<not> second_of_3 b b1 then (False, 1)
           else if continuation b2 then (True, 3) else (False, 2)
         else if 0xF0 \<le> b \<and> b \<le> 0xF4 then
           if \<not> second_of_4 b b1 then (False, 1)
           else if \<not> continuation b2 then (False, 2)
           else if continuation b3 then (True, 4) else (False, 3)
         else (False, 1))"

lemma utf8_step_pos: "0 < snd (utf8_step s)"
  by (simp add: utf8_step_def Let_def)

lemma utf8_step_drop: "s \<noteq> [] \<Longrightarrow> length s - snd (utf8_step s) < length s"
  using utf8_step_pos [of s] by (simp add: diff_less)

function valid_utf8 :: "string \<Rightarrow> bool" where
  "valid_utf8 s =
     (if s = [] then True
      else fst (utf8_step s) \<and> valid_utf8 (drop (snd (utf8_step s)) s))"
  by pat_completeness auto
termination
  by (relation "measure length") (simp_all add: utf8_step_drop)

definition replacement_char :: string where
  "replacement_char = [CHR 0xEF, CHR 0xBF, CHR 0xBD]"

function from_utf8_lossy :: "string \<Rightarrow> string" where
  "from_utf8_lossy s =
     (if s = [] then []
      else (if fst (utf8_step s) then take (snd (utf8_step s)) s else replacement_char) @
           from_utf8_lossy (drop (snd (utf8_step s)) s))"
  by pat_completeness auto
termination
  by (relation "measure length") (simp_all add: utf8_step_drop)

declare valid_utf8.simps [simp del] from_utf8_lossy.simps [simp del]

lemma valid_utf8_Nil [simp]: "valid_utf8 []"
  by (simp add: valid_utf8.simps)

lemma from_utf8_lossy_Nil [simp]: "from_utf8_lossy [] = []"
  by (simp add: from_utf8_lossy.simps)

lemma from_utf8_lossy_valid: "valid_utf8 s \<Longrightarrow> from_utf8_lossy s = s"
proof (induction s rule: valid_utf8.induct)
  case (1 s)
  show ?case
  proof (cases "s = []")
    case False
    with "1.prems" have "fst (utf8_step s)" and "valid_utf8 (drop (snd (utf8_step s)) s)"
      by (auto simp: valid_utf8.simps [of s])
    with 1 False show ?thesis by (simp add: from_utf8_lossy.simps [of s])
  qed simp
qed

definition ascii :: "char \<Rightarrow> bool" where
  "ascii c \<longleftrightarrow> code_of c < 128"

lemma utf8_step_ascii: "ascii c \<Longrightarrow> utf8_step (c # s) = (True, 1)"
  by (simp add: utf8_step_def ascii_def byte_at_def Let_def)

lemma valid_utf8_Cons_ascii [simp]: "ascii c \<Longrightarrow> valid_utf8 (c # s) = valid_utf8 s"
  by (subst valid_utf8.simps) (simp add: utf8_step_ascii)

lemma from_utf8_lossy_Cons_ascii [simp]:
  "ascii c \<Longrightarrow> from_utf8_lossy (c # s) = c # from_utf8_lossy s"
  by (subst from_utf8_lossy.simps) (simp add: utf8_step_ascii)

lemma valid_utf8_ascii: "\<forall>c \<in> set s. ascii c \<Longrightarrow> valid_utf8 s"
  by (induction s) auto

lemma graphic_ascii: "graphic c \<Longrightarrow> ascii c"
  by (simp add: graphic_def ascii_def)

lemma char_boundary_ascii: "\<forall>c \<in> set s. ascii c \<Longrightarrow> i \<le> length s \<Longrightarrow> char_boundary s i"
  by (auto simp: char_boundary_def continuation_def byte_at_def ascii_def)
     (metis nth_mem not_le order_le_less)

end
