(* ===== verification/Encoding.thy ===== *)
theory Encoding
  imports Utf8
begin

unbundle bit_operations_syntax

text \<open>
  The text encodings of \<^verbatim>\<open>auth.rs\<close>: the base64 decoder that reads the payload of a JWT, the
  base64url encoder of PKCE, and percent-encoding and decoding of URLs.
\<close>

section \<open>Base64\<close>

definition std_alphabet :: string where
  "std_alphabet = ''ABCDEFGHIJKLMNOPQRSTUVWXYZabcdefghijklmnopqrstuvwxyz0123456789+/''"

definition url_alphabet :: string where
  "url_alphabet = ''ABCDEFGHIJKLMNOPQRSTUVWXYZabcdefghijklmnopqrstuvwxyz0123456789-_''"

fun position :: "'a \<Rightarrow> 'a list \<Rightarrow> nat option" where
  "position x [] = None"
| "position x (y # ys) = (if y = x then Some 0 else map_option Suc (position x ys))"

text \<open>
  The decoding loop: \<open>buf\<close> is the 32-bit accumulator (its high bits fall out of \<^verbatim>\<open>buf << 6\<close>),
  \<open>bits\<close> the number of its bits not yet written.
\<close>

fun base64_loop :: "u32 \<Rightarrow> nat \<Rightarrow> string \<Rightarrow> u8 list option" where
  "base64_loop buf bits [] = Some []"
| "base64_loop buf bits (c # s) =
     (if c = CHR ''='' then Some []
      else case position c std_alphabet of
        None \<Rightarrow> None
      | Some idx \<Rightarrow>
          (let buf' = push_bit 6 buf OR of_nat idx; bits' = bits + 6
           in if 8 \<le> bits'
              then map_option ((#) (ucast (drop_bit (bits' - 8) buf')))
                     (base64_loop buf' (bits' - 8) s)
              else base64_loop buf' bits' s))"

definition base64_decode :: "string \<Rightarrow> u8 list option" where
  "base64_decode s = base64_loop 0 0 s"

fun chunks :: "nat \<Rightarrow> 'a list \<Rightarrow> 'a list list" where
  "chunks 0 xs = []"
| "chunks (Suc n) [] = []"
| "chunks (Suc n) (x # xs) = (x # take n xs) # chunks (Suc n) (drop n xs)"

lemma chunks_code [code]:
  "chunks n xs = (if n = 0 \<or> xs = [] then [] else take n xs # chunks n (drop n xs))"
  by (cases n; cases xs) simp_all

definition b64url_chunk :: "u8 list \<Rightarrow> string" where
  "b64url_chunk chunk =
     (let b0 = chunk ! 0;
          b1 = (if 1 < length chunk then chunk ! 1 else 0);
          b2 = (if 2 < length chunk then chunk ! 2 else 0);
          n = (push_bit 16 (ucast b0) OR push_bit 8 (ucast b1)) OR ucast b2 :: u32
      in map (\<lambda>i. url_alphabet ! unat (drop_bit (18 - 6 * i) n AND 0x3F))
             [0..<length chunk + 1])"

definition b64url :: "u8 list \<Rightarrow> string" where
  "b64url bytes = concat (map b64url_chunk (chunks 3 bytes))"

text \<open>From the url alphabet to the standard one, and the padding that \<^verbatim>\<open>jwt_claim\<close> adds.\<close>

function pad4 :: "string \<Rightarrow> string" where
  "pad4 s = (if length s mod 4 \<noteq> 0 then pad4 (s @ ''='') else s)"
  by pat_completeness auto
termination
  by (relation "measure (\<lambda>s. if length s mod 4 = 0 then 0 else 4 - length s mod 4)")
     (auto simp: mod_Suc)

declare pad4.simps [simp del]

definition jwt_base64 :: "string \<Rightarrow> string" where
  "jwt_base64 payload =
     pad4 (replace_char (CHR ''_'') ''/'' (replace_char (CHR ''-'') ''+'' payload))"

subsection \<open>Decoding undoes encoding\<close>

definition to_std :: "char \<Rightarrow> char" where
  "to_std c = (if c = CHR ''-'' then CHR ''+'' else if c = CHR ''_'' then CHR ''/'' else c)"

lemma replace_url: "replace_char (CHR ''_'') ''/'' (replace_char (CHR ''-'') ''+'' s) = map to_std s"
  by (induction s) (auto simp: to_std_def)

lemma position_nth: "distinct xs \<Longrightarrow> k < length xs \<Longrightarrow> position (xs ! k) xs = Some k"
proof (induction xs arbitrary: k)
  case (Cons x xs)
  then show ?case by (cases k) (auto simp: in_set_conv_nth)
qed simp

lemma alphabet_facts: "map to_std url_alphabet = std_alphabet" "distinct std_alphabet"
  "CHR ''='' \<notin> set std_alphabet" "length std_alphabet = 64" "length url_alphabet = 64"
  by (simp_all add: url_alphabet_def std_alphabet_def to_std_def)

lemma alphabet_position:
  assumes "k < 64"
  shows "position (to_std (url_alphabet ! k)) std_alphabet = Some k" "to_std (url_alphabet ! k) \<noteq> CHR ''=''"
proof -
  have k: "to_std (url_alphabet ! k) = std_alphabet ! k"
    using alphabet_facts(1,5) assms by (metis nth_map)
  show "position (to_std (url_alphabet ! k)) std_alphabet = Some k"
    using assms alphabet_facts position_nth [of std_alphabet k] k by simp
  show "to_std (url_alphabet ! k) \<noteq> CHR ''=''"
    using assms alphabet_facts k nth_mem by metis
qed

lemma sextet_position:
  fixes w :: u32
  shows "position (to_std (url_alphabet ! unat (w AND 0x3F))) std_alphabet = Some (unat (w AND 0x3F))"
    and "to_std (url_alphabet ! unat (w AND 0x3F)) \<noteq> CHR ''=''"
proof -
  have "w AND 0x3F = take_bit 6 w"
    by (simp add: take_bit_eq_mask mask_eq_exp_minus_1)
  then have "unat (w AND 0x3F) < 64"
    by (simp add: unsigned_take_bit_eq take_bit_nat_less_exp [of 6, simplified])
  with alphabet_position
  show "position (to_std (url_alphabet ! unat (w AND 0x3F))) std_alphabet = Some (unat (w AND 0x3F))"
    and "to_std (url_alphabet ! unat (w AND 0x3F)) \<noteq> CHR ''=''"
    by simp_all
qed

lemma u8_bit_eqI:
  fixes a b :: u8
  assumes "bit a 0 = bit b 0" "bit a 1 = bit b 1" "bit a 2 = bit b 2" "bit a 3 = bit b 3"
    "bit a 4 = bit b 4" "bit a 5 = bit b 5" "bit a 6 = bit b 6" "bit a 7 = bit b 7"
  shows "a = b"
proof (rule bit_word_eqI)
  fix i assume "i < LENGTH(8)"
  then have "i = 0 \<or> i = 1 \<or> i = 2 \<or> i = 3 \<or> i = 4 \<or> i = 5 \<or> i = 6 \<or> i = 7" by auto
  with assms show "bit a i = bit b i" by blast
qed

text \<open>The three bytes that four sextets of a group24 carry, whatever the accumulator held.\<close>

definition group24 :: "u8 \<Rightarrow> u8 \<Rightarrow> u8 \<Rightarrow> u32" where
  "group24 a b c = (push_bit 16 (ucast a) OR push_bit 8 (ucast b)) OR ucast c"

definition push6 :: "u32 \<Rightarrow> u32 \<Rightarrow> u32" where
  "push6 buf w = push_bit 6 buf OR (w AND 0x3F)"

lemma group_byte0:
  "ucast (drop_bit 4 (push6 (push6 buf (drop_bit 18 (group24 a b c))) (drop_bit 12 (group24 a b c)))) = a"
  unfolding group24_def push6_def
  by (rule u8_bit_eqI; auto simp: bit_simps dest: bit_imp_le_length)

lemma group_byte1:
  "ucast (drop_bit 2 (push6 (push6 buf (drop_bit 12 (group24 a b c))) (drop_bit 6 (group24 a b c)))) = b"
  unfolding group24_def push6_def
  by (rule u8_bit_eqI; auto simp: bit_simps dest: bit_imp_le_length)

lemma group_byte2:
  "ucast (push6 (push6 buf (drop_bit 6 (group24 a b c))) (group24 a b c)) = c"
  unfolding group24_def push6_def
  by (rule u8_bit_eqI; auto simp: bit_simps dest: bit_imp_le_length)

lemma base64_loop_sextet:
  fixes w :: u32
  shows "base64_loop buf bits (to_std (url_alphabet ! unat (w AND 0x3F)) # s) =
    (if 2 \<le> bits
     then map_option ((#) (ucast (drop_bit (bits - 2) (push6 buf w))))
            (base64_loop (push6 buf w) (bits - 2) s)
     else base64_loop (push6 buf w) (bits + 6) s)"
  using sextet_position [of w] by (simp add: push6_def Let_def)

lemma b64url_chunk_simps:
  "b64url_chunk [a] =
     map (\<lambda>w. url_alphabet ! unat (w AND 0x3F))
         [drop_bit 18 (group24 a 0 0), drop_bit 12 (group24 a 0 0)]"
  "b64url_chunk [a, b] =
     map (\<lambda>w. url_alphabet ! unat (w AND 0x3F))
         [drop_bit 18 (group24 a b 0), drop_bit 12 (group24 a b 0), drop_bit 6 (group24 a b 0)]"
  "b64url_chunk [a, b, c] =
     map (\<lambda>w. url_alphabet ! unat (w AND 0x3F))
         [drop_bit 18 (group24 a b c), drop_bit 12 (group24 a b c), drop_bit 6 (group24 a b c),
          group24 a b c]"
  by (simp_all add: b64url_chunk_def group24_def upt_rec Let_def)

lemma chunks3_simps:
  "chunks 3 [] = []" "chunks 3 [a] = [[a]]" "chunks 3 [a, b] = [[a, b]]"
  "chunks 3 (a # b # c # r) = [a, b, c] # chunks 3 r"
  by (simp_all add: numeral_3_eq_3)

lemma b64url_simps [simp]:
  "b64url [] = []" "b64url [a] = b64url_chunk [a]" "b64url [a, b] = b64url_chunk [a, b]"
  "b64url (a # b # c # r) = b64url_chunk [a, b, c] @ b64url r"
  by (simp_all add: b64url_def chunks3_simps)

lemma base64_loop_padding [simp]: "base64_loop buf bits (replicate k (CHR ''='')) = Some []"
  by (cases k) auto

fun by3 :: "'a list \<Rightarrow> 'a list" where
  "by3 (a # b # c # r) = by3 r"
| "by3 xs = xs"

lemma base64_loop_b64url:
  "base64_loop buf 0 (map to_std (b64url bytes) @ replicate k (CHR ''='')) = Some bytes"
  by (induction bytes arbitrary: buf rule: by3.induct)
     (simp_all add: b64url_chunk_simps base64_loop_sextet group_byte0 group_byte1 group_byte2
        del: base64_loop.simps(2))

lemma pad4_append: "\<exists>k. pad4 s = s @ replicate k (CHR ''='')"
proof (induction s rule: pad4.induct)
  case (1 s)
  show ?case
  proof (cases "length s mod 4 = 0")
    case True
    then have "pad4 s = s @ replicate 0 (CHR ''='')" by (simp add: pad4.simps)
    then show ?thesis by blast
  next
    case False
    with 1 obtain k where "pad4 (s @ ''='') = (s @ ''='') @ replicate k (CHR ''='')" by auto
    with False have "pad4 s = s @ replicate (Suc k) (CHR ''='')"
      by (simp add: pad4.simps [of s])
    then show ?thesis by blast
  qed
qed

lemma length_pad4: "length (pad4 s) mod 4 = 0"
  by (induction s rule: pad4.induct) (metis pad4.simps)

lemma decode_b64url: "base64_decode (jwt_base64 (b64url bytes)) = Some bytes"
  using pad4_append [of "map to_std (b64url bytes)"]
  by (auto simp: base64_decode_def jwt_base64_def replace_url base64_loop_b64url)

text \<open>The url encoding uses no character that a query, a path or a form gives a meaning.\<close>

definition unreserved :: "char \<Rightarrow> bool" where
  "unreserved c \<longleftrightarrow>
     (65 \<le> code_of c \<and> code_of c \<le> 90) \<or> (97 \<le> code_of c \<and> code_of c \<le> 122) \<or>
     (48 \<le> code_of c \<and> code_of c \<le> 57) \<or> c = CHR ''-'' \<or> c = CHR ''_'' \<or> c = CHR ''.'' \<or>
     c = CHR ''~''"

lemma alphabet_unreserved: "list_all unreserved url_alphabet"
  by (simp add: url_alphabet_def unreserved_def)

lemma sextet_less: "unat ((w :: u32) AND 0x3F) < 64"
proof -
  have "w AND 0x3F = take_bit 6 w"
    by (simp add: take_bit_eq_mask mask_eq_exp_minus_1)
  then show ?thesis
    by (simp add: unsigned_take_bit_eq take_bit_nat_less_exp [of 6, simplified])
qed

lemma b64url_unreserved: "c \<in> set (b64url bytes) \<Longrightarrow> unreserved c"
  using alphabet_unreserved sextet_less alphabet_facts(5)
  by (auto simp: b64url_def b64url_chunk_def list_all_length Let_def)

interpretation b64: codec b64url "base64_decode \<circ> jwt_base64" "\<lambda>_. True"
  by unfold_locales (simp add: decode_b64url)

section \<open>Percent encoding\<close>

definition percent_byte :: "char \<Rightarrow> string" where
  "percent_byte c =
     (if unreserved c then [c]
      else [CHR ''%'', upper_digit_char (code_of c div 16), upper_digit_char (code_of c mod 16)])"

definition percent :: "string \<Rightarrow> string" where
  "percent s = concat (map percent_byte s)"

text \<open>
  The decoding loop at index \<open>i\<close> of \<open>s\<close>. Slicing \<^verbatim>\<open>&s[i + 1..i + 3]\<close> panics when an end is
  not a character boundary; a panic is \<open>None\<close>.
\<close>

function percent_decode_loop :: "string \<Rightarrow> nat \<Rightarrow> string \<Rightarrow> string option" where
  "percent_decode_loop s i out =
     (if i < length s then
        if s ! i = CHR ''%'' \<and> i + 2 < length s then
          if char_boundary s (i + 1) \<and> char_boundary s (i + 3) then
            case parse_unsigned 16 256 (take 2 (drop (i + 1) s)) of
              Some v \<Rightarrow> percent_decode_loop s (i + 3) (out @ [char_of v])
            | None \<Rightarrow> percent_decode_loop s (i + 1) (out @ [s ! i])
          else None
        else percent_decode_loop s (i + 1) (out @ [s ! i])
      else Some out)"
  by pat_completeness auto
termination
  by (relation "measure (\<lambda>(s, i, out). length s - i)") auto

declare percent_decode_loop.simps [simp del]

definition percent_decode :: "string \<Rightarrow> string option" where
  "percent_decode s = map_option from_utf8_lossy (percent_decode_loop s 0 [])"

subsection \<open>Decoding undoes encoding\<close>

lemma hex_digit:
  "d < 16 \<Longrightarrow> digit_val 16 (upper_digit_char d) = Some d"
  by (simp add: digit_val_def upper_digit_char_def Let_def)

lemma unreserved_graphic: "unreserved c \<Longrightarrow> graphic c \<and> c \<noteq> CHR ''%''"
  by (auto simp: unreserved_def graphic_def)

lemma upper_digit_unreserved: "d < 16 \<Longrightarrow> unreserved (upper_digit_char d)"
  by (auto simp: unreserved_def upper_digit_char_def)

lemma hex_split: "code_of c div 16 < 16" "code_of c mod 16 < 16"
  using nat_of_char_less_256 [of c] by (simp_all add: less_mult_imp_div_less)

lemma parse_percent_byte:
  "parse_unsigned 16 256
     [upper_digit_char (code_of c div 16), upper_digit_char (code_of c mod 16)] = Some (code_of c)"
proof -
  have "upper_digit_char (code_of c div 16) \<noteq> CHR ''+''"
    using upper_digit_unreserved [OF hex_split(1) [of c]] by (auto simp: unreserved_def)
  then show ?thesis
    using nat_of_char_less_256 [of c]
    by (simp add: parse_unsigned_def hex_digit [OF hex_split(1)] hex_digit [OF hex_split(2)])
qed

lemma percent_byte_chars: "x \<in> set (percent_byte c) \<Longrightarrow> unreserved x \<or> x = CHR ''%''"
  using upper_digit_unreserved [OF hex_split(1) [of c]] upper_digit_unreserved [OF hex_split(2) [of c]]
  by (auto simp: percent_byte_def split: if_splits)

lemma percent_chars: "x \<in> set (percent s) \<Longrightarrow> unreserved x \<or> x = CHR ''%''"
  by (auto simp: percent_def dest: percent_byte_chars)

lemma percent_ascii: "x \<in> set (percent s) \<Longrightarrow> ascii x"
  using percent_chars [of x s] unreserved_graphic [of x] graphic_ascii [of x]
  by (auto simp: ascii_def)

lemma percent_no: "\<not> unreserved x \<Longrightarrow> x \<noteq> CHR ''%'' \<Longrightarrow> x \<notin> set (percent s)"
  using percent_chars by blast

lemma percent_Cons: "percent (c # s) = percent_byte c @ percent s"
  by (simp add: percent_def)

lemma percent_decode_loop_percent:
  "\<forall>x \<in> set pre. ascii x \<Longrightarrow>
   percent_decode_loop (pre @ percent s) (length pre) out = Some (out @ s)"
proof (induction s arbitrary: pre out)
  case Nil
  then show ?case by (simp add: percent_def percent_decode_loop.simps)
next
  case (Cons c s)
  let ?t = "pre @ percent (c # s)"
  have ascii: "\<forall>x \<in> set ?t. ascii x" using Cons.prems percent_ascii by auto
  have pre: "\<forall>x \<in> set (pre @ percent_byte c). ascii x"
    using ascii by (auto simp: percent_Cons)
  have IH: "percent_decode_loop ?t (length (pre @ percent_byte c)) (out @ [c]) =
            Some ((out @ [c]) @ s)"
    using Cons.IH [OF pre] by (simp add: percent_Cons)
  show ?case
  proof (cases "unreserved c")
    case True
    then have "c \<noteq> CHR ''%''" using unreserved_graphic by blast
    then show ?thesis using IH True
      by (subst percent_decode_loop.simps) (simp add: percent_Cons percent_byte_def)
  next
    case False
    have "char_boundary ?t (length pre + 1)" "char_boundary ?t (length pre + 3)"
      using False char_boundary_ascii [OF ascii]
      by (auto simp: percent_Cons percent_byte_def simp del: One_nat_def)
    then show ?thesis using IH False
      by (subst percent_decode_loop.simps)
         (simp add: percent_Cons percent_byte_def parse_percent_byte [simplified] numeral_2_eq_2 numeral_3_eq_3)
  qed
qed

lemma percent_decode_percent: "valid_utf8 s \<Longrightarrow> percent_decode (percent s) = Some s"
  using percent_decode_loop_percent [of "[]" s "[]"]
  by (simp add: percent_decode_def from_utf8_lossy_valid)

interpretation pct: codec percent percent_decode valid_utf8
  by unfold_locales (rule percent_decode_percent)

end
