(* ===== verification/Transport.thy ===== *)
theory Transport
  imports Config Encoding
begin

text \<open>
  The processes of \<^verbatim>\<open>tunnel.rs\<close>: the SSH client or the WebSocket relay that is started and with
  which arguments, the address the client dials, and the SOCKS5 handshake that proves a tunnel
  forwards. A command is its program and its argument list.
\<close>

section \<open>Transports and relays\<close>

datatype transport =
    Plink path
  | OpenSsh path path path \<comment> \<open>program, key, known hosts\<close>

record relay =
  rel_exe :: path
  rel_ws_url :: string
  rel_path_prefix :: string
  rel_target :: string
  rel_local_port :: u16
  rel_proxy :: string

definition relay_new :: "path \<Rightarrow> string \<Rightarrow> string \<Rightarrow> u16 \<Rightarrow> string \<Rightarrow> relay" where
  "relay_new exe ws_url target local_port proxy =
     (let trimmed = trim_end_matches ''/'' (trim ws_url);
          (origin, prefix) =
            (case find_str ''://'' trimmed of
               Some i \<Rightarrow>
                 (let scheme = take (i + 3) trimmed; rest = drop (i + 3) trimmed
                  in case split_once (CHR ''/'') rest of
                       Some (authority, path) \<Rightarrow> (scheme @ authority, trim_matches ''/'' path)
                     | None \<Rightarrow> (trimmed, []))
             | None \<Rightarrow> (trimmed, []))
      in \<lparr>rel_exe = exe, rel_ws_url = origin,
          rel_path_prefix = (if prefix = [] then ''ws'' else prefix), rel_target = target,
          rel_local_port = local_port, rel_proxy = proxy\<rparr>)"

definition relay_command :: "relay \<Rightarrow> string \<times> string list" where
  "relay_command r =
     (path_display (rel_exe r),
      [''client'', ''-L'',
       ''tcp://127.0.0.1:'' @ show_word (rel_local_port r) @ '':'' @ rel_target r,
       ''-P'', rel_path_prefix r, ''--log-lvl'', ''INFO''] @
      (if trim (rel_proxy r) = [] then []
       else [''--http-proxy'',
             trim_start_matches ''https://''
               (trim_start_matches ''http://'' (trim (rel_proxy r)))]) @
      [rel_ws_url r])"

definition tcp_reachable :: "'a list result \<Rightarrow> ('a \<Rightarrow> bool) \<Rightarrow> bool" where
  "tcp_reachable addrs connects =
     (case addrs of Err _ \<Rightarrow> False | Ok as \<Rightarrow> list_ex connects as)"

definition openssh_path :: "string option \<Rightarrow> store \<Rightarrow> path" where
  "openssh_path system_root st =
     (let root = (case system_root of Some r \<Rightarrow> r | None \<Rightarrow> ''C:'' @ [CHR 0x5C] @ ''Windows'');
          p = [root, ''System32'', ''OpenSSH'', ''ssh.exe'']
      in if path_exists p st then p else [''ssh''])"

text \<open>The constant of \<^verbatim>\<open>enroll.rs\<close> under which the server's host key is pinned.\<close>

definition host_alias :: string where
  "host_alias = ''splitstream-server''"

section \<open>The SSH command\<close>

definition dynamic_forward :: "config \<Rightarrow> string list" where
  "dynamic_forward cfg = [''-D'', ''127.0.0.1:'' @ show_word (cfg_local_port cfg)]"

fun ssh_command ::
    "store \<Rightarrow> transport \<Rightarrow> config \<Rightarrow> string \<Rightarrow> u16 \<Rightarrow> string \<times> string list" where
  "ssh_command st (Plink exe) cfg host port =
     (path_display exe,
      [''-N'', ''-batch'', ''-ssh'', ''-P'', show_word port] @ dynamic_forward cfg @
      [cfg_user cfg @ ''@'' @ host] @
      (if trim (cfg_key_path cfg) = [] then [] else [''-i'', cfg_key_path cfg]))"
| "ssh_command st (OpenSsh exe key known_hosts) cfg host port =
     (path_display exe,
      [''-N'', ''-T'', ''-p'', show_word port] @ dynamic_forward cfg @
      [''-i'', path_display key,
       ''-o'', ''IdentitiesOnly=yes'', ''-o'', ''IdentityAgent=none'', ''-o'', ''BatchMode=yes'',
       ''-o'', ''ExitOnForwardFailure=yes'', ''-o'', ''ServerAliveInterval=30'',
       ''-o'', ''ServerAliveCountMax=3'',
       ''-o'', ''UserKnownHostsFile='' @ path_display known_hosts,
       ''-o'', ''HostKeyAlias='' @ host_alias,
       ''-o'', (if path_exists known_hosts st then ''StrictHostKeyChecking=yes''
              else ''StrictHostKeyChecking=accept-new''),
       cfg_user cfg @ ''@'' @ host])"

text \<open>Where the client dials: a relay's local port when there is a relay, else the server.\<close>

definition dial_address :: "relay option \<Rightarrow> config \<Rightarrow> string \<times> u16" where
  "dial_address relay cfg =
     (case relay of
        Some r \<Rightarrow> (''127.0.0.1'', rel_local_port r)
      | None \<Rightarrow> (cfg_host cfg, cfg_port cfg))"

section \<open>The SOCKS5 handshake\<close>

text \<open>
  What the local port does: whether it accepts a connection, takes the three bytes of the
  greeting, and which bytes it answers before the read times out.
\<close>

record socks_peer =
  sp_connects :: bool
  sp_accepts_write :: bool
  sp_reply :: "u8 list"

definition socks_healthy :: "socks_peer \<Rightarrow> bool" where
  "socks_healthy peer \<longleftrightarrow>
     sp_connects peer \<and> sp_accepts_write peer \<and>
     2 \<le> length (sp_reply peer) \<and> sp_reply peer ! 0 = 0x05"

section \<open>Properties\<close>

lemma ends_with_single: "ends_with s [c] \<longleftrightarrow> s \<noteq> [] \<and> last s = c"
  by (cases s rule: rev_cases) (auto simp: ends_with_def)

lemma find_str_scheme:
  "CHR '':'' \<notin> set a \<Longrightarrow> find_str ''://'' (a @ ''://'' @ b) = Some (length a)"
  by (induction a) auto

lemma trim_matches_stuck:
  "\<not> starts_with s ''/'' \<Longrightarrow> \<not> ends_with s ''/'' \<Longrightarrow> trim_matches ''/'' s = s"
  by (simp add: trim_matches_def trim_start_matches_def trim_end_matches_stuck strip_many_stuck
      strip_one_single)

lemma relay_new_at:
  assumes "trim url = url" and "trim_end_matches ''/'' url = url" and "url = scheme @ ''://'' @ rest"
    and "CHR '':'' \<notin> set scheme"
  shows "rel_ws_url (relay_new exe url target port proxy) =
           (case split_once (CHR ''/'') rest of
              Some (authority, path) \<Rightarrow> scheme @ ''://'' @ authority | None \<Rightarrow> url)"
    and "rel_path_prefix (relay_new exe url target port proxy) =
           (case split_once (CHR ''/'') rest of
              Some (authority, path) \<Rightarrow>
                (if trim_matches ''/'' path = [] then ''ws'' else trim_matches ''/'' path)
            | None \<Rightarrow> ''ws'')"
proof -
  have "find_str ''://'' url = Some (length scheme)"
    using assms(3,4) find_str_scheme [of scheme rest] by simp
  moreover have "take (length scheme + 3) url = scheme @ ''://''" "drop (length scheme + 3) url = rest"
    using assms(3) by simp_all
  ultimately show "rel_ws_url (relay_new exe url target port proxy) =
      (case split_once (CHR ''/'') rest of
         Some (authority, path) \<Rightarrow> scheme @ ''://'' @ authority | None \<Rightarrow> url)"
    and "rel_path_prefix (relay_new exe url target port proxy) =
      (case split_once (CHR ''/'') rest of
         Some (authority, path) \<Rightarrow>
           (if trim_matches ''/'' path = [] then ''ws'' else trim_matches ''/'' path)
       | None \<Rightarrow> ''ws'')"
    using assms(1,2)
    by (cases "split_once (CHR ''/'') rest"; simp add: relay_new_def split_beta)+
qed

text \<open>
  The URL the server advertised is taken apart where wstunnel needs it: from
  \<^verbatim>\<open>scheme://authority/path\<close> the origin keeps no part of the path and the prefix no slash around
  it, and the prefix is \<^verbatim>\<open>ws\<close> when the URL names no path.
\<close>

theorem relay_new_splits:
  assumes "\<forall>c \<in> set scheme. graphic c \<and> c \<noteq> CHR '':''"
    and "\<forall>c \<in> set authority. graphic c \<and> c \<noteq> CHR ''/''" and "authority \<noteq> []"
    and "\<forall>c \<in> set path. graphic c" and "\<not> starts_with path ''/''" and "\<not> ends_with path ''/''"
    and "path \<noteq> []"
  shows "rel_ws_url (relay_new exe (scheme @ ''://'' @ authority @ ''/'' @ path) target port proxy)
           = scheme @ ''://'' @ authority \<and>
         rel_path_prefix (relay_new exe (scheme @ ''://'' @ authority @ ''/'' @ path) target port proxy)
           = path \<and>
         rel_ws_url (relay_new exe (scheme @ ''://'' @ authority) target port proxy)
           = scheme @ ''://'' @ authority \<and>
         rel_path_prefix (relay_new exe (scheme @ ''://'' @ authority) target port proxy) = ''ws''"
proof -
  have trim: "trim (scheme @ ''://'' @ x) = scheme @ ''://'' @ x" if "\<forall>c \<in> set x. graphic c" for x
    using assms(1) that by (intro trim_all_graphic) (auto simp: graphic_def)
  have stuck: "trim_end_matches ''/'' (scheme @ ''://'' @ x) = scheme @ ''://'' @ x"
    if "x \<noteq> []" "last x \<noteq> CHR ''/''" for x
    using that by (intro trim_end_matches_stuck) (simp_all add: ends_with_single)
  have scheme: "CHR '':'' \<notin> set scheme" using assms(1) by blast
  have auth: "CHR ''/'' \<notin> set authority" "last authority \<noteq> CHR ''/''"
    using assms(2,3) last_in_set by blast+
  have g: "\<forall>c \<in> set (authority @ ''/'' @ path). graphic c" "\<forall>c \<in> set authority. graphic c"
    using assms(2,4) by (auto simp: graphic_def)
  have last: "last (authority @ ''/'' @ path) \<noteq> CHR ''/''"
    using assms(6,7) by (simp add: ends_with_single)
  have "split_once (CHR ''/'') (authority @ ''/'' @ path) = Some (authority, path)"
    "split_once (CHR ''/'') authority = None"
    using auth by simp_all
  moreover have "trim_matches ''/'' path = path"
    using assms(5,6) by (rule trim_matches_stuck)
  ultimately show ?thesis
    using assms(7) relay_new_at [OF trim [OF g(1)] stuck [OF _ last] refl scheme]
      relay_new_at [OF trim [OF g(2)] stuck [OF assms(3) auth(2)] refl scheme] by simp
qed

theorem relay_new_splits_witness:
  "rel_path_prefix (relay_new [''w''] ''wss://tunnel.example.com/ws/v1'' ''h:22'' 12223 [])
     = ''ws/v1''"
  using relay_new_splits [of "''wss''" "''tunnel.example.com''" "''ws/v1''" "[''w'']" "''h:22''" 12223 "[]"]
  by (simp add: graphic_def ends_with_single)

text \<open>
  The key the client accepts does not depend on how the server is reached: whatever host
  and port are dialled, every option after the port is the same, the pinned alias among them,
  and an unknown host key is refused exactly when a key is pinned.
\<close>

theorem ssh_command_pins_host_key:
  "drop 4 (butlast (snd (ssh_command st (OpenSsh exe key kh) cfg host port))) =
   drop 4 (butlast (snd (ssh_command st (OpenSsh exe key kh) cfg host' port'))) \<and>
   ''HostKeyAlias='' @ host_alias \<in>
     set (drop 4 (butlast (snd (ssh_command st (OpenSsh exe key kh) cfg host port)))) \<and>
   last (butlast (snd (ssh_command st (OpenSsh exe key kh) cfg host port))) =
     (if path_exists kh st then ''StrictHostKeyChecking=yes'' else ''StrictHostKeyChecking=accept-new'')"
  by (simp add: dynamic_forward_def)

text \<open>
  The health check looks at the first byte of the answer only: a peer that refuses every
  authentication method (\<^verbatim>\<open>05 FF\<close>), with which no SOCKS request can follow, counts as healthy
  exactly as one that accepts (\<^verbatim>\<open>05 00\<close>).
\<close>

theorem socks_healthy_ignores_method:
  "socks_healthy \<lparr>sp_connects = True, sp_accepts_write = True, sp_reply = 0x05 # m # rest\<rparr> \<and>
   socks_healthy \<lparr>sp_connects = True, sp_accepts_write = True, sp_reply = [0x05, 0xFF]\<rparr> \<and>
   \<not> socks_healthy \<lparr>sp_connects = True, sp_accepts_write = True, sp_reply = [0x05]\<rparr>"
  by (simp add: socks_healthy_def)

end
