(* ===== verification/Supervisor.thy ===== *)
theory Supervisor
  imports Transport
begin

text \<open>
  The supervisor of \<^verbatim>\<open>tunnel.rs\<close>: the worker thread that \<^verbatim>\<open>start\<close> spawns, cut at every access to
  the state it shares (the status and the two process slots behind their mutexes, the running
  flag), and the steps of \<^verbatim>\<open>stop\<close>. Threads interleave freely. A statement that holds a lock over
  several calls (\<^verbatim>\<open>take\<close>, then \<^verbatim>\<open>kill\<close> and \<^verbatim>\<open>wait\<close> under the guard of an \<^verbatim>\<open>if let\<close>) is one step. What
  the operating system answers (whether a process could be started, whether a port answers)
  is part of the event that drives the step, and processes may end at any time.
\<close>

section \<open>State\<close>

datatype status =
    Stopped
  | Starting
  | Connected
  | Reconnecting string
  | Error string

text \<open>
  The shared state. A process is a number; \<open>s_alive\<close> holds the ones that were started and have
  not ended, \<open>s_log\<close> the commands started so far, newest first.
\<close>

record sup =
  s_status :: status
  s_running :: bool
  s_child :: "nat option"
  s_relay :: "nat option"
  s_alive :: "nat set"
  s_next :: nat
  s_log :: "(string \<times> string list) list"

definition sup_new :: sup where
  "sup_new = \<lparr>s_status = Stopped, s_running = False, s_child = None, s_relay = None,
              s_alive = {}, s_next = 0, s_log = []\<rparr>"

definition sup_status :: "sup \<Rightarrow> status" where
  "sup_status s = s_status s"

text \<open>Where a worker is; processes it holds in a local variable are arguments.\<close>

datatype pc =
    Loop | SetStarting
  | RelayNeed | RelaySpawn | RelayStore nat | RelayFailed string | RelayFlag
  | RelayWait nat | RelayProbe nat | RelayDown
  | Spawn | SpawnFailed string | SpawnFlag
  | StartWait nat nat | StartProbe nat nat | StartTry nat nat
  | SetConnected nat | StoreChild nat
  | Watch | WatchTry | WatchProbe | TakeChild | KillLocal nat
  | AfterChild | SetRetrying | Sleep u64
  | ExitRelay | ExitStatus
  | Done | Failed

record worker =
  w_pc :: pc
  w_backoff :: u64
  w_transport :: transport
  w_cfg :: config
  w_via :: "relay option"

datatype stop_pc = StopFlag | StopChild | StopRelay | StopStatus | StopDone

text \<open>
  What the system answers in one step: the outcome of starting a process, whether the port
  that is probed answers, whether \<^verbatim>\<open>try_wait\<close> reports an ended process, and the files a started
  command finds.
\<close>

record answer =
  a_spawn :: "unit result"
  a_reach :: bool
  a_wait_ok :: bool
  a_files :: store

section \<open>Processes\<close>

definition launch :: "string \<times> string list \<Rightarrow> sup \<Rightarrow> sup" where
  "launch cmd s = s\<lparr>s_alive := insert (s_next s) (s_alive s), s_next := Suc (s_next s),
                    s_log := cmd # s_log s\<rparr>"

definition kill :: "nat \<Rightarrow> sup \<Rightarrow> sup" where
  "kill p s = s\<lparr>s_alive := s_alive s - {p}\<rparr>"

definition exited :: "answer \<Rightarrow> nat \<Rightarrow> sup \<Rightarrow> bool" where
  "exited a p s \<longleftrightarrow> a_wait_ok a \<and> p \<notin> s_alive s"

definition take_child :: "sup \<Rightarrow> sup" where
  "take_child s = (case s_child s of None \<Rightarrow> s | Some p \<Rightarrow> kill p (s\<lparr>s_child := None\<rparr>))"

definition take_relay :: "sup \<Rightarrow> sup" where
  "take_relay s = (case s_relay s of None \<Rightarrow> s | Some p \<Rightarrow> kill p (s\<lparr>s_relay := None\<rparr>))"

section \<open>The worker\<close>

definition relay_err :: "string \<Rightarrow> string" where
  "relay_err e = ''cannot start the relay: '' @ e"

definition client_err :: "transport \<Rightarrow> string \<Rightarrow> string" where
  "client_err t e =
     ''cannot start '' @ (case t of Plink _ \<Rightarrow> ''plink'' | OpenSsh _ _ _ \<Rightarrow> ''ssh'') @ '': '' @ e"

definition relay_down_msg :: string where
  "relay_down_msg = ''the WebSocket relay did not come up''"

definition retry_msg :: "u64 \<Rightarrow> string" where
  "retry_msg b = ''retrying in '' @ show_word b @ ''s''"

definition next_backoff :: "u64 \<Rightarrow> u64" where
  "next_backoff b = min (b * 2) 60"

definition client_command :: "answer \<Rightarrow> worker \<Rightarrow> string \<times> string list" where
  "client_command a w =
     (case dial_address (w_via w) (w_cfg w) of
        (host, port) \<Rightarrow> ssh_command (a_files a) (w_transport w) (w_cfg w) host port)"

definition worker_step :: "answer \<Rightarrow> worker \<Rightarrow> sup \<Rightarrow> worker \<times> sup" where
  "worker_step a w s =
     (let goto = (\<lambda>p. w\<lparr>w_pc := p\<rparr>) in
      case w_pc w of
        Loop \<Rightarrow> (goto (if s_running s then SetStarting else ExitRelay), s)
      | SetStarting \<Rightarrow>
          (goto (if w_via w = None then Spawn else RelayNeed), s\<lparr>s_status := Starting\<rparr>)
      | RelayNeed \<Rightarrow>
          (goto (if (case s_relay s of Some p \<Rightarrow> exited a p s | None \<Rightarrow> True)
                 then RelaySpawn else Spawn), s)
      | RelaySpawn \<Rightarrow>
          (case (a_spawn a, w_via w) of
             (Ok _, Some r) \<Rightarrow> (goto (RelayStore (s_next s)), launch (relay_command r) s)
           | (Err e, _) \<Rightarrow> (goto (RelayFailed e), s)
           | (Ok _, None) \<Rightarrow> (goto Spawn, s))
      | RelayStore p \<Rightarrow> (goto (RelayWait 0), s\<lparr>s_relay := Some p\<rparr>)
      | RelayFailed e \<Rightarrow> (goto RelayFlag, s\<lparr>s_status := Error (relay_err e)\<rparr>)
      | RelayFlag \<Rightarrow> (goto Failed, s\<lparr>s_running := False\<rparr>)
      | RelayWait i \<Rightarrow> (goto (if i < 30 \<and> s_running s then RelayProbe i else RelayDown), s)
      | RelayProbe i \<Rightarrow> (goto (if a_reach a then Spawn else RelayWait (Suc i)), s)
      | RelayDown \<Rightarrow> (goto Spawn, s\<lparr>s_status := Reconnecting relay_down_msg\<rparr>)
      | Spawn \<Rightarrow>
          (case a_spawn a of
             Ok _ \<Rightarrow> (goto (StartWait 0 (s_next s)), launch (client_command a w) s)
           | Err e \<Rightarrow> (goto (SpawnFailed e), s))
      | SpawnFailed e \<Rightarrow>
          (goto SpawnFlag, s\<lparr>s_status := Error (client_err (w_transport w) e)\<rparr>)
      | SpawnFlag \<Rightarrow> (goto Failed, s\<lparr>s_running := False\<rparr>)
      | StartWait i p \<Rightarrow>
          (goto (if i < 30 \<and> s_running s then StartProbe i p else KillLocal p), s)
      | StartProbe i p \<Rightarrow> (goto (if a_reach a then SetConnected p else StartTry i p), s)
      | StartTry i p \<Rightarrow> (goto (if exited a p s then KillLocal p else StartWait (Suc i) p), s)
      | SetConnected p \<Rightarrow>
          (w\<lparr>w_pc := StoreChild p, w_backoff := 5\<rparr>, s\<lparr>s_status := Connected\<rparr>)
      | StoreChild p \<Rightarrow> (goto Watch, s\<lparr>s_child := Some p\<rparr>)
      | Watch \<Rightarrow> (goto (if s_running s then WatchTry else TakeChild), s)
      | WatchTry \<Rightarrow>
          (goto (if (case s_child s of Some p \<Rightarrow> exited a p s | None \<Rightarrow> True)
                 then TakeChild else WatchProbe), s)
      | WatchProbe \<Rightarrow> (goto (if a_reach a then Watch else TakeChild), s)
      | TakeChild \<Rightarrow> (goto AfterChild, take_child s)
      | KillLocal p \<Rightarrow> (goto AfterChild, kill p s)
      | AfterChild \<Rightarrow> (goto (if s_running s then SetRetrying else ExitRelay), s)
      | SetRetrying \<Rightarrow>
          (goto (Sleep 0), s\<lparr>s_status := Reconnecting (retry_msg (w_backoff w))\<rparr>)
      | Sleep k \<Rightarrow>
          (if k < w_backoff w \<and> s_running s then (goto (Sleep (k + 1)), s)
           else (w\<lparr>w_pc := Loop, w_backoff := next_backoff (w_backoff w)\<rparr>, s))
      | ExitRelay \<Rightarrow> (goto ExitStatus, take_relay s)
      | ExitStatus \<Rightarrow> (goto Done, s\<lparr>s_status := Stopped\<rparr>)
      | Done \<Rightarrow> (w, s)
      | Failed \<Rightarrow> (w, s))"

section \<open>start and stop\<close>

fun stop_step :: "stop_pc \<Rightarrow> sup \<Rightarrow> stop_pc \<times> sup" where
  "stop_step StopFlag s = (StopChild, s\<lparr>s_running := False\<rparr>)"
| "stop_step StopChild s = (StopRelay, take_child s)"
| "stop_step StopRelay s = (StopStatus, take_relay s)"
| "stop_step StopStatus s = (StopDone, s\<lparr>s_status := Stopped\<rparr>)"
| "stop_step StopDone s = (StopDone, s)"

record sys =
  y_sup :: sup
  y_workers :: "worker list"
  y_stoppers :: "stop_pc list"

definition sys_new :: sys where
  "sys_new = \<lparr>y_sup = sup_new, y_workers = [], y_stoppers = []\<rparr>"

definition new_worker :: "transport \<Rightarrow> config \<Rightarrow> relay option \<Rightarrow> worker" where
  "new_worker t cfg via =
     \<lparr>w_pc = Loop, w_backoff = 5, w_transport = t, w_cfg = cfg, w_via = via\<rparr>"

definition start :: "transport \<Rightarrow> config \<Rightarrow> relay option \<Rightarrow> sys \<Rightarrow> sys" where
  "start t cfg via y =
     (if s_running (y_sup y) then y
      else y\<lparr>y_sup := (y_sup y)\<lparr>s_running := True\<rparr>,
             y_workers := y_workers y @ [new_worker t cfg via]\<rparr>)"

text \<open>
  The events of the system: a call of \<^verbatim>\<open>start\<close> or \<^verbatim>\<open>stop\<close>, one step of the \<open>n\<close>-th worker or of the
  \<open>n\<close>-th call of \<^verbatim>\<open>stop\<close>, and the end of a process.
\<close>

datatype event =
    EStart transport config "relay option"
  | EStop
  | EWorker nat answer
  | EStopper nat
  | EExit nat

fun sys_next :: "event \<Rightarrow> sys \<Rightarrow> sys" where
  "sys_next (EStart t cfg via) y = start t cfg via y"
| "sys_next EStop y = y\<lparr>y_stoppers := y_stoppers y @ [StopFlag]\<rparr>"
| "sys_next (EWorker n a) y =
     (if n < length (y_workers y) then
        (case worker_step a (y_workers y ! n) (y_sup y) of
           (w, s) \<Rightarrow> y\<lparr>y_sup := s, y_workers := (y_workers y)[n := w]\<rparr>)
      else y)"
| "sys_next (EStopper n) y =
     (if n < length (y_stoppers y) then
        (case stop_step (y_stoppers y ! n) (y_sup y) of
           (p, s) \<Rightarrow> y\<lparr>y_sup := s, y_stoppers := (y_stoppers y)[n := p]\<rparr>)
      else y)"
| "sys_next (EExit p) y = y\<lparr>y_sup := kill p (y_sup y)\<rparr>"

definition run :: "event list \<Rightarrow> sys \<Rightarrow> sys" where
  "run es y = fold sys_next es y"

section \<open>Steps as a relation\<close>

inductive sys_step :: "sys \<Rightarrow> sys \<Rightarrow> bool" where
  by_start: "sys_step y (start t cfg via y)"
| by_stop: "sys_step y (y\<lparr>y_stoppers := y_stoppers y @ [StopFlag]\<rparr>)"
| by_worker:
    "n < length (y_workers y) \<Longrightarrow> worker_step a (y_workers y ! n) (y_sup y) = (w, s) \<Longrightarrow>
     sys_step y (y\<lparr>y_sup := s, y_workers := (y_workers y)[n := w]\<rparr>)"
| by_stopper:
    "n < length (y_stoppers y) \<Longrightarrow> stop_step (y_stoppers y ! n) (y_sup y) = (p, s) \<Longrightarrow>
     sys_step y (y\<lparr>y_sup := s, y_stoppers := (y_stoppers y)[n := p]\<rparr>)"
| by_exit: "sys_step y (y\<lparr>y_sup := kill p (y_sup y)\<rparr>)"

lemma sys_next_step: "sys_next e y = y \<or> sys_step y (sys_next e y)"
  by (cases e) (auto intro: sys_step.intros split: prod.split)

lemma run_Nil [simp]: "run [] y = y"
  by (simp add: run_def)

lemma run_snoc [simp]: "run (es @ [e]) y = sys_next e (run es y)"
  by (simp add: run_def)

lemma run_Cons [simp]: "run (e # es) y = run es (sys_next e y)"
  by (simp add: run_def)

lemma run_append: "run (es @ fs) y = run fs (run es y)"
  by (simp add: run_def)

lemma run_reaches: "sys_step\<^sup>*\<^sup>* y (run es y)"
proof (induction es rule: rev_induct)
  case (snoc e es)
  then show ?case using sys_next_step [of e "run es y"] by (auto intro: rtranclp.intros)
qed simp

lemma launch_simps [simp]:
  "s_status (launch c s) = s_status s" "s_running (launch c s) = s_running s"
  "s_child (launch c s) = s_child s" "s_relay (launch c s) = s_relay s"
  "s_alive (launch c s) = insert (s_next s) (s_alive s)" "s_next (launch c s) = Suc (s_next s)"
  "s_log (launch c s) = c # s_log s"
  by (simp_all add: launch_def)

lemma kill_simps [simp]:
  "s_status (kill p s) = s_status s" "s_running (kill p s) = s_running s"
  "s_child (kill p s) = s_child s" "s_relay (kill p s) = s_relay s"
  "s_alive (kill p s) = s_alive s - {p}" "s_next (kill p s) = s_next s" "s_log (kill p s) = s_log s"
  by (simp_all add: kill_def)

lemma take_child_simps [simp]:
  "s_status (take_child s) = s_status s" "s_running (take_child s) = s_running s"
  "s_child (take_child s) = None" "s_relay (take_child s) = s_relay s"
  "s_alive (take_child s) = s_alive s - set_option (s_child s)"
  "s_next (take_child s) = s_next s" "s_log (take_child s) = s_log s"
  by (auto simp: take_child_def split: option.splits)

lemma take_relay_simps [simp]:
  "s_status (take_relay s) = s_status s" "s_running (take_relay s) = s_running s"
  "s_child (take_relay s) = s_child s" "s_relay (take_relay s) = None"
  "s_alive (take_relay s) = s_alive s - set_option (s_relay s)"
  "s_next (take_relay s) = s_next s" "s_log (take_relay s) = s_log s"
  by (auto simp: take_relay_def split: option.splits)

section \<open>What holds whatever the interleaving\<close>

text \<open>
  Where a worker may be while its process is in the slot, and where between having written Connected
  and writing the status the next time: that it has lost its client, or is on its way out, shows
  only then.
\<close>

fun watching :: "pc \<Rightarrow> bool" where
  "watching Watch = True"
| "watching WatchTry = True"
| "watching WatchProbe = True"
| "watching TakeChild = True"
| "watching _ = False"

fun online :: "pc \<Rightarrow> bool" where
  "online (StoreChild p) = True"
| "online AfterChild = True"
| "online SetRetrying = True"
| "online ExitRelay = True"
| "online ExitStatus = True"
| "online p = watching p"

definition backoffs :: "u64 set" where
  "backoffs = {5, 10, 20, 40, 60}"

definition shared_ok :: "sys \<Rightarrow> bool" where
  "shared_ok y \<longleftrightarrow>
     (\<forall>w \<in> set (y_workers y). w_backoff w \<in> backoffs) \<and>
     (s_status (y_sup y) = Connected \<longrightarrow> (\<exists>w \<in> set (y_workers y). online (w_pc w))) \<and>
     (s_child (y_sup y) \<noteq> None \<longrightarrow> (\<exists>w \<in> set (y_workers y). watching (w_pc w)))"

lemma next_backoff_in: "b \<in> backoffs \<Longrightarrow> next_backoff b \<in> backoffs"
  by (auto simp: backoffs_def next_backoff_def min_def)

lemma five_backoff [simp]: "5 \<in> backoffs"
  by (simp add: backoffs_def)

lemmas worker_eval = worker_step_def Let_def

lemma worker_step_backoff:
  "worker_step a w s = (w', s') \<Longrightarrow> w_backoff w \<in> backoffs \<Longrightarrow> w_backoff w' \<in> backoffs"
  by (cases "w_pc w")
    (auto simp: worker_eval next_backoff_in
      split: if_splits option.splits sum.splits)

lemma worker_step_online:
  "worker_step a w s = (w', s') \<Longrightarrow> s_status s' = Connected \<Longrightarrow>
   online (w_pc w') \<or> s_status s = Connected \<and> \<not> online (w_pc w)"
  by (cases "w_pc w")
    (auto simp: worker_eval split: if_splits option.splits sum.splits)

lemma worker_step_watching:
  "worker_step a w s = (w', s') \<Longrightarrow> s_child s' \<noteq> None \<Longrightarrow>
   watching (w_pc w') \<or> s_child s \<noteq> None \<and> \<not> watching (w_pc w)"
  by (cases "w_pc w")
    (auto simp: worker_eval split: if_splits option.splits sum.splits)

lemma update_keeps_other:
  "\<exists>x \<in> set xs. P x \<Longrightarrow> \<not> P (xs ! n) \<Longrightarrow> \<exists>x \<in> set (xs[n := y]). P x"
  by (metis in_set_conv_nth length_list_update nth_list_update_neq)

lemma update_has_new: "n < length xs \<Longrightarrow> P y \<Longrightarrow> \<exists>x \<in> set (xs[n := y]). P x"
  by (blast intro: set_update_memI)

lemma stop_step_effect:
  "stop_step p s = (p', s') \<Longrightarrow>
   (s_status s' = s_status s \<or> s_status s' = Stopped) \<and>
   (s_child s' = s_child s \<or> s_child s' = None) \<and>
   (s_relay s' = s_relay s \<or> s_relay s' = None) \<and> s_next s' = s_next s"
  by (induction p s rule: stop_step.induct) auto

lemma shared_ok_worker:
  assumes ok: "shared_ok y" and n: "n < length (y_workers y)"
    and st: "worker_step a (y_workers y ! n) (y_sup y) = (w, s)"
  shows "shared_ok (y\<lparr>y_sup := s, y_workers := (y_workers y)[n := w]\<rparr>)"
proof -
  let ?ws = "(y_workers y)[n := w]"
  have "\<forall>x \<in> set ?ws. w_backoff x \<in> backoffs"
    using ok n worker_step_backoff [OF st] set_update_subset_insert [of "y_workers y" n w]
    unfolding shared_ok_def by (metis insertE nth_mem subsetD)
  moreover have "\<exists>x \<in> set ?ws. online (w_pc x)" if "s_status s = Connected"
    using worker_step_online [OF st that] ok update_has_new [OF n, of "\<lambda>w. online (w_pc w)"]
      update_keeps_other [of "y_workers y" "\<lambda>w. online (w_pc w)"]
    unfolding shared_ok_def by blast
  moreover have "\<exists>x \<in> set ?ws. watching (w_pc x)" if "s_child s \<noteq> None"
    using worker_step_watching [OF st that] ok update_has_new [OF n, of "\<lambda>w. watching (w_pc w)"]
      update_keeps_other [of "y_workers y" "\<lambda>w. watching (w_pc w)"]
    unfolding shared_ok_def by blast
  ultimately show ?thesis by (simp add: shared_ok_def)
qed

lemma shared_ok_step: "sys_step y z \<Longrightarrow> shared_ok y \<Longrightarrow> shared_ok z"
proof (induction rule: sys_step.induct)
  case (by_start y t cfg via)
  then show ?case by (auto simp: shared_ok_def start_def new_worker_def backoffs_def)
next
  case (by_worker n y a w s)
  then show ?case by (blast intro: shared_ok_worker)
next
  case (by_stopper n y p s)
  then show ?case using stop_step_effect [of "y_stoppers y ! n" "y_sup y"]
    by (auto simp: shared_ok_def)
qed (auto simp: shared_ok_def)

lemma shared_ok_new: "shared_ok sys_new"
  by (simp add: shared_ok_def sys_new_def sup_new_def)

interpretation tunnel_sys: invariant_system "\<lambda>y. y = sys_new" sys_step shared_ok
  by unfold_locales (auto simp: shared_ok_new elim: shared_ok_step)

lemma shared_ok_run: "shared_ok (run es sys_new)"
  using tunnel_sys.reachable_inv run_reaches by blast

section \<open>One supervisor at a time\<close>

text \<open>
  \<^verbatim>\<open>start\<close> only looks at the running flag, so a worker that has not noticed \<^verbatim>\<open>stop\<close> yet is joined by
  a second one. The calm runs are those where \<^verbatim>\<open>start\<close> finds no worker that is still on its way.
\<close>

fun finished :: "pc \<Rightarrow> bool" where
  "finished Done = True"
| "finished Failed = True"
| "finished _ = False"

fun calm :: "event \<Rightarrow> sys \<Rightarrow> bool" where
  "calm (EStart t cfg via) y =
     (s_running (y_sup y) \<or> list_all (\<lambda>w. finished (w_pc w)) (y_workers y))"
| "calm _ y = True"

fun calm_run :: "event list \<Rightarrow> sys \<Rightarrow> bool" where
  "calm_run [] y = True"
| "calm_run (e # es) y = (calm e y \<and> calm_run es (sys_next e y))"

inductive calm_step :: "sys \<Rightarrow> sys \<Rightarrow> bool" where
  calm_by: "calm e y \<Longrightarrow> calm_step y (sys_next e y)"

inductive_cases calm_stepE: "calm_step y z"

lemma calm_run_reaches: "calm_run es y \<Longrightarrow> calm_step\<^sup>*\<^sup>* y (run es y)"
  by (induction es arbitrary: y) (auto intro: converse_rtranclp_into_rtranclp calm_by)

lemma calm_run_append: "calm_run (es @ fs) y \<longleftrightarrow> calm_run es y \<and> calm_run fs (run es y)"
  by (induction es arbitrary: y) auto

text \<open>Where the latest worker is, and the processes it holds in local variables.\<close>

definition current :: "sys \<Rightarrow> pc" where
  "current y = (if y_workers y = [] then Done else w_pc (last (y_workers y)))"

fun held :: "pc \<Rightarrow> nat set" where
  "held (RelayStore p) = {p}"
| "held (StartWait i p) = {p}"
| "held (StartProbe i p) = {p}"
| "held (StartTry i p) = {p}"
| "held (SetConnected p) = {p}"
| "held (StoreChild p) = {p}"
| "held (KillLocal p) = {p}"
| "held _ = {}"

fun starting_relay :: "pc \<Rightarrow> bool" where
  "starting_relay RelaySpawn = True"
| "starting_relay (RelayStore p) = True"
| "starting_relay _ = False"

definition sole :: "pc \<Rightarrow> sup \<Rightarrow> bool" where
  "sole pc s \<longleftrightarrow>
     s_alive s \<subseteq> held pc \<union> set_option (s_child s) \<union> set_option (s_relay s) \<and>
     (\<forall>p \<in> held pc \<union> set_option (s_relay s). p < s_next s) \<and>
     (starting_relay pc \<longrightarrow> set_option (s_relay s) \<inter> s_alive s = {}) \<and>
     (s_child s \<noteq> None \<longrightarrow> watching pc) \<and>
     (pc = Done \<longrightarrow> s_status s = Stopped) \<and>
     (pc = Done \<or> pc = ExitStatus \<longrightarrow> s_relay s = None)"

definition sole_ok :: "sys \<Rightarrow> bool" where
  "sole_ok y \<longleftrightarrow>
     (\<forall>w \<in> set (butlast (y_workers y)). finished (w_pc w)) \<and> sole (current y) (y_sup y)"

lemma sole_worker:
  "worker_step a w s = (w', s') \<Longrightarrow> sole (w_pc w) s \<Longrightarrow> sole (w_pc w') s'"
  by (cases "w_pc w"; simp add: worker_eval split: if_splits option.splits sum.splits;
      (auto simp: sole_def exited_def)?)

lemma sole_smaller:
  assumes "sole pc s" and "s_child s' = s_child s \<or> s_child s' = None" and "s_relay s' = s_relay s \<or> s_relay s' = None"
    and "s_alive s' \<subseteq> s_alive s" and "s_alive s' \<inter> (set_option (s_child s) - set_option (s_child s')) = {}"
    and "s_alive s' \<inter> (set_option (s_relay s) - set_option (s_relay s')) = {}"
    and "s_next s' = s_next s" and "s_status s' = s_status s \<or> s_status s' = Stopped"
  shows "sole pc s'"
  using assms unfolding sole_def by (elim disjE) (simp_all, blast+)

lemma sole_stop: "stop_step p s = (p', s') \<Longrightarrow> sole pc s \<Longrightarrow> sole pc s'"
  by (cases p) (auto elim!: sole_smaller)

lemma sole_exit: "sole pc s \<Longrightarrow> sole pc (kill p s)"
  by (auto simp: sole_def)

lemma sole_start: "finished pc \<Longrightarrow> sole pc s \<Longrightarrow> sole Loop (s\<lparr>s_running := True\<rparr>)"
  by (cases pc) (auto simp: sole_def)

lemma finished_stays:
  "finished (w_pc w) \<Longrightarrow> worker_step a w s = (w, s)"
  by (cases "w_pc w") (simp_all add: worker_eval)

lemma sole_ok_worker:
  assumes ok: "sole_ok y" and n: "n < length (y_workers y)"
    and st: "worker_step a (y_workers y ! n) (y_sup y) = (w, s)"
  shows "sole_ok (y\<lparr>y_sup := s, y_workers := (y_workers y)[n := w]\<rparr>)"
proof (cases "n = length (y_workers y) - 1")
  case True
  then have "current y = w_pc (y_workers y ! n)" using n
    by (auto simp: current_def last_conv_nth)
  with sole_worker [OF st] ok n True show ?thesis
    by (auto simp: sole_ok_def current_def last_list_update butlast_list_update)
next
  case False
  then have "y_workers y ! n \<in> set (butlast (y_workers y))" using n
    by (metis in_set_conv_nth length_butlast less_antisym Suc_diff_1 length_pos_if_in_set
        nth_butlast nth_mem)
  then have "finished (w_pc (y_workers y ! n))" using ok by (simp add: sole_ok_def)
  from finished_stays [OF this] st have "w = y_workers y ! n" "s = y_sup y" by simp_all
  then show ?thesis using ok by simp
qed

lemma sole_ok_next: "sole_ok y \<Longrightarrow> calm e y \<Longrightarrow> sole_ok (sys_next e y)"
proof (cases e)
  case (EStart t cfg via)
  assume ok: "sole_ok y" and "calm e y"
  show ?thesis
  proof (cases "s_running (y_sup y)")
    case False
    with \<open>calm e y\<close> EStart have fin: "\<forall>w \<in> set (y_workers y). finished (w_pc w)"
      by (simp add: list_all_iff)
    then have "finished (current y)" by (simp add: current_def)
    from sole_start [OF this] ok fin False EStart show ?thesis
      by (simp add: start_def sole_ok_def current_def new_worker_def)
  qed (simp add: EStart start_def ok)
next
  case (EWorker n a)
  assume "sole_ok y" "calm e y"
  then show ?thesis by (simp add: EWorker sole_ok_worker split: prod.split)
next
  case (EStopper n)
  assume ok: "sole_ok y" and "calm e y"
  then show ?thesis
    using sole_stop [of "y_stoppers y ! n" "y_sup y"]
    by (auto simp: EStopper sole_ok_def current_def split: prod.split)
qed (auto simp: sole_ok_def current_def sole_exit)

lemma sole_ok_new: "sole_ok sys_new"
  by (simp add: sole_ok_def sole_def current_def sys_new_def sup_new_def)

interpretation calm_sys: invariant_system "\<lambda>y. y = sys_new" calm_step sole_ok
  by unfold_locales (auto simp: sole_ok_new sole_ok_next elim: calm_stepE)

lemma sole_ok_finished:
  assumes "sole_ok y" and "\<forall>w \<in> set (y_workers y). finished (w_pc w)" and "current y \<noteq> Failed"
  shows "s_status (y_sup y) = Stopped \<and> s_child (y_sup y) = None \<and> s_relay (y_sup y) = None \<and>
         s_alive (y_sup y) = {}"
proof -
  have "finished (current y)" using assms(2) by (simp add: current_def)
  with assms(1,3) show ?thesis by (cases "current y") (auto simp: sole_ok_def sole_def)
qed

lemma sole_ok_run: "calm_run es sys_new \<Longrightarrow> sole_ok (run es sys_new)"
  using calm_sys.reachable_inv calm_run_reaches by blast

section \<open>Stopping\<close>

text \<open>Once the running flag is down, each step of a worker brings it nearer to its end.\<close>

fun rank :: "pc \<Rightarrow> nat" where
  "rank SetStarting = 12"
| "rank RelayNeed = 11"
| "rank RelaySpawn = 10"
| "rank (RelayStore p) = 9"
| "rank (RelayProbe i) = 9"
| "rank (RelayWait i) = 8"
| "rank RelayDown = 7"
| "rank (RelayFailed e) = 2"
| "rank RelayFlag = 1"
| "rank Spawn = 6"
| "rank (SpawnFailed e) = 2"
| "rank SpawnFlag = 1"
| "rank (StartProbe i p) = 8"
| "rank (StartTry i p) = 6"
| "rank (StartWait i p) = 5"
| "rank (SetConnected p) = 7"
| "rank (StoreChild p) = 6"
| "rank WatchTry = 7"
| "rank WatchProbe = 6"
| "rank Watch = 5"
| "rank TakeChild = 4"
| "rank (KillLocal p) = 4"
| "rank AfterChild = 3"
| "rank SetRetrying = 5"
| "rank (Sleep k) = 4"
| "rank Loop = 3"
| "rank ExitRelay = 2"
| "rank ExitStatus = 1"
| "rank Done = 0"
| "rank Failed = 0"

lemma rank_le: "rank pc \<le> 12"
  by (cases pc) simp_all

lemma rank_0: "rank pc = 0 \<longleftrightarrow> finished pc"
  by (cases pc) simp_all

lemma rank_decreases:
  "worker_step a w s = (w', s') \<Longrightarrow> \<not> s_running s \<Longrightarrow>
   \<not> s_running s' \<and> rank (w_pc w') \<le> rank (w_pc w) - 1"
  by (cases "w_pc w")
    (auto simp: worker_eval split: if_splits option.splits sum.splits)

fun is_start :: "event \<Rightarrow> bool" where
  "is_start (EStart t cfg via) = True"
| "is_start _ = False"

fun of_worker :: "nat \<Rightarrow> event \<Rightarrow> bool" where
  "of_worker n (EWorker m a) = (m = n)"
| "of_worker n _ = False"

definition steps_of :: "nat \<Rightarrow> event list \<Rightarrow> nat" where
  "steps_of n es = length (filter (of_worker n) es)"

definition stopping :: "nat \<Rightarrow> sys \<Rightarrow> bool" where
  "stopping len y \<longleftrightarrow> \<not> s_running (y_sup y) \<and> length (y_workers y) = len"

definition work_left :: "nat \<Rightarrow> sys \<Rightarrow> nat" where
  "work_left n y = (if n < length (y_workers y) then rank (w_pc (y_workers y ! n)) else 0)"

lemma stopping_next: "stopping len y \<Longrightarrow> \<not> is_start e \<Longrightarrow> stopping len (sys_next e y)"
proof (cases e)
  case (EWorker m a)
  assume "stopping len y"
  then show ?thesis using EWorker rank_decreases [of a "y_workers y ! m" "y_sup y"]
    by (auto simp: stopping_def split: prod.split)
next
  case (EStopper m)
  assume "stopping len y"
  then show ?thesis using EStopper
    by (cases "y_stoppers y ! m") (auto simp: stopping_def split: prod.split)
qed (auto simp: stopping_def)

lemma work_left_next:
  assumes "stopping len y" and "\<not> is_start e"
  shows "work_left n (sys_next e y) \<le> work_left n y - (if of_worker n e then 1 else 0)"
proof (cases e)
  case (EWorker m a)
  then show ?thesis using assms rank_decreases [of a "y_workers y ! m" "y_sup y"]
    by (auto simp: stopping_def work_left_def nth_list_update split: prod.split)
qed (use assms in \<open>auto simp: work_left_def split: prod.split\<close>)

interpretation stopping: progress_system sys_next "\<lambda>e. \<not> is_start e" "stopping len" "of_worker n" "work_left n"
  for len n
  by unfold_locales (erule (1) stopping_next, erule (1) work_left_next)

lemma stopped_run:
  assumes "\<not> s_running (y_sup y)" and "\<forall>e \<in> set es. \<not> is_start e"
  shows "\<not> s_running (y_sup (run es y)) \<and> length (y_workers (run es y)) = length (y_workers y) \<and>
         work_left n (run es y) \<le> work_left n y - steps_of n es"
  using stopping.fold_inv [of "length (y_workers y)" y es]
    stopping.fold_left [of "length (y_workers y)" y es n] assms
  by (simp add: stopping_def run_def steps_of_def list_all_iff)

lemma calm_without_start: "\<forall>e \<in> set es. \<not> is_start e \<Longrightarrow> calm_run es y"
proof (induction es arbitrary: y)
  case (Cons e es)
  then show ?case by (cases e) auto
qed simp

section \<open>Pausing between attempts\<close>

definition alone :: "answer \<Rightarrow> worker \<times> sup \<Rightarrow> worker \<times> sup" where
  "alone a = (\<lambda>(w, s). worker_step a w s)"

lemma sleep_run:
  "s_running s \<Longrightarrow> w_pc w = Sleep k \<Longrightarrow> unat k + m = unat (w_backoff w) \<Longrightarrow>
   (alone a ^^ m) (w, s) = (w\<lparr>w_pc := Sleep (w_backoff w)\<rparr>, s)"
proof (induction m arbitrary: k w)
  case 0
  then have "k = w_backoff w" by (simp add: word_unat_eq_iff)
  with 0 show ?case by simp
next
  case (Suc m)
  have less: "k < w_backoff w" using Suc.prems(3) by (simp add: word_less_nat_alt)
  then have "Suc (unat k) < 18446744073709551616"
    using unsigned_less [of "w_backoff w", where ?'a = nat] by (simp add: word_less_nat_alt)
  then have next_k: "unat (k + 1) = Suc (unat k)" by (simp add: unat_word_ariths)
  have "alone a (w, s) = (w\<lparr>w_pc := Sleep (k + 1)\<rparr>, s)"
    using Suc.prems less by (simp add: alone_def worker_eval)
  moreover have "(alone a ^^ m) (w\<lparr>w_pc := Sleep (k + 1)\<rparr>, s)
      = (w\<lparr>w_pc := Sleep (w_backoff w)\<rparr>, s)"
    using Suc.IH [of "w\<lparr>w_pc := Sleep (k + 1)\<rparr>" "k + 1"] Suc.prems next_k by simp
  ultimately show ?case by (simp only: funpow_Suc_right o_apply)
qed

lemma unat_next_backoff:
  "unat b \<le> 60 \<Longrightarrow> unat (next_backoff b) = min (2 * unat b) 60"
proof -
  assume b: "unat b \<le> 60"
  then have "unat b * 2 < 18446744073709551616" by linarith
  then have "unat (b * 2) = 2 * unat b"
    by (simp add: unat_word_ariths)
  then show ?thesis
    by (simp add: next_backoff_def min_def word_le_nat_alt)
qed

section \<open>The handshake behind Connected\<close>

definition claims :: "sys \<Rightarrow> bool" where
  "claims y \<longleftrightarrow> s_status (y_sup y) = Connected \<or>
     (\<exists>w \<in> set (y_workers y). \<exists>p. w_pc w = SetConnected p)"

lemma worker_claims:
  "worker_step a w s = (w', s') \<Longrightarrow> s_status s \<noteq> Connected \<Longrightarrow> \<nexists>p. w_pc w = SetConnected p \<Longrightarrow>
   s_status s' \<noteq> Connected \<and>
   (\<forall>p. w_pc w' = SetConnected p \<longrightarrow> a_reach a \<and> (\<exists>i. w_pc w = StartProbe i p))"
  by (cases "w_pc w")
    (auto simp: worker_eval split: if_splits option.splits sum.splits)

lemma claims_next:
  assumes "\<not> claims y" and "claims (sys_next e y)"
  shows "\<exists>n a i p. e = EWorker n a \<and> a_reach a \<and> n < length (y_workers y) \<and>
           w_pc (y_workers y ! n) = StartProbe i p"
proof (cases e)
  case (EWorker n a)
  with assms have n: "n < length (y_workers y)" by (auto split: if_splits)
  obtain w s where st: "worker_step a (y_workers y ! n) (y_sup y) = (w, s)" by fastforce
  have "\<nexists>p. w_pc (y_workers y ! n) = SetConnected p" "s_status (y_sup y) \<noteq> Connected"
    using assms(1) n nth_mem by (auto simp: claims_def)
  note step = worker_claims [OF st this(2,1)]
  obtain x p where x: "x \<in> set ((y_workers y)[n := w])" "w_pc x = SetConnected p"
    using assms(2) step n st by (auto simp: claims_def EWorker)
  then have "x = w" using assms(1) set_update_subset_insert [of "y_workers y" n w]
    by (auto simp: claims_def)
  with step x EWorker n show ?thesis by blast
next
  case (EStopper n)
  then show ?thesis using assms stop_step_effect [of "y_stoppers y ! n" "y_sup y"]
    by (auto simp: claims_def split: if_splits prod.splits)
qed (use assms in \<open>auto simp: claims_def start_def new_worker_def split: if_splits\<close>)

section \<open>Losing a client\<close>

text \<open>How many steps a worker that has lost its client is from writing another status, if it is.\<close>

fun loss_left :: "pc \<Rightarrow> nat" where
  "loss_left WatchProbe = 7"
| "loss_left Watch = 6"
| "loss_left WatchTry = 5"
| "loss_left TakeChild = 4"
| "loss_left AfterChild = 3"
| "loss_left ExitRelay = 2"
| "loss_left SetRetrying = 1"
| "loss_left ExitStatus = 1"
| "loss_left _ = 0"

definition losing :: "nat \<Rightarrow> sys \<Rightarrow> bool" where
  "losing n y \<longleftrightarrow>
     n < length (y_workers y) \<and> 0 < loss_left (w_pc (y_workers y ! n)) \<and>
     (\<forall>m < length (y_workers y). m \<noteq> n \<longrightarrow> finished (w_pc (y_workers y ! m))) \<and>
     set_option (s_child (y_sup y)) \<inter> s_alive (y_sup y) = {}"

text \<open>Nothing is started, and \<^verbatim>\<open>try_wait\<close> works.\<close>

fun attentive :: "event \<Rightarrow> bool" where
  "attentive (EStart t cfg via) = False"
| "attentive (EWorker n a) = a_wait_ok a"
| "attentive _ = True"

lemma loss_step:
  "worker_step a w s = (w', s') \<Longrightarrow> a_wait_ok a \<Longrightarrow> 0 < loss_left (w_pc w) \<Longrightarrow>
   set_option (s_child s) \<inter> s_alive s = {} \<Longrightarrow>
   s_status s' \<noteq> Connected \<or>
   0 < loss_left (w_pc w') \<and> loss_left (w_pc w') < loss_left (w_pc w) \<and> set_option (s_child s') \<inter> s_alive s' = {}"
  by (cases "w_pc w"; simp add: worker_eval exited_def split: if_splits option.splits; fastforce?)

lemma losing_next:
  assumes "losing n y" and "attentive e"
  shows "s_status (y_sup (sys_next e y)) \<noteq> Connected \<or>
         losing n (sys_next e y) \<and>
         loss_left (w_pc (y_workers (sys_next e y) ! n)) \<le>
           loss_left (w_pc (y_workers y ! n)) - (if of_worker n e then 1 else 0)"
proof (cases e)
  case (EWorker m a)
  show ?thesis
  proof (cases "m = n")
    case True
    obtain w s where "worker_step a (y_workers y ! n) (y_sup y) = (w, s)" by fastforce
    with loss_step [OF this] assms EWorker True show ?thesis
      by (auto simp: losing_def nth_list_update)
  next
    case False
    then have "sys_next e y = y"
      using assms(1) finished_stays [of "y_workers y ! m" a "y_sup y"] EWorker by (auto simp: losing_def)
    with assms(1) EWorker False show ?thesis by simp
  qed
next
  case (EStopper m)
  then show ?thesis using assms(1)
    by (cases "y_stoppers y ! m") (auto simp: losing_def)
qed (use assms in \<open>auto simp: losing_def\<close>)

lemma losing_run:
  "losing n y \<Longrightarrow> list_all attentive fs \<Longrightarrow> loss_left (w_pc (y_workers y ! n)) \<le> steps_of n fs \<Longrightarrow>
   \<exists>pre post. fs = pre @ post \<and> s_status (y_sup (run pre y)) \<noteq> Connected"
proof (induction fs arbitrary: y)
  case Nil
  then show ?case by (simp add: losing_def steps_of_def)
next
  case (Cons e fs)
  show ?case
  proof (cases "s_status (y_sup (sys_next e y)) = Connected")
    case True
    with losing_next [of n y e] Cons.prems
    have "losing n (sys_next e y)"
      "loss_left (w_pc (y_workers (sys_next e y) ! n)) \<le> steps_of n fs"
      by (auto simp: steps_of_def split: if_splits)
    with Cons.IH [of "sys_next e y"] Cons.prems(2) obtain pre post
      where "fs = pre @ post" "s_status (y_sup (run pre (sys_next e y))) \<noteq> Connected" by auto
    then show ?thesis by (intro exI [of _ "e # pre"] exI [of _ post]) simp
  next
    case False
    then show ?thesis by (intro exI [of _ "[e]"] exI [of _ fs]) simp
  qed
qed

section \<open>A relay left behind\<close>

text \<open>Every worker has ended, and a process is alive in the relay slot; what keeps it so.\<close>

definition stranded :: "nat \<Rightarrow> status \<Rightarrow> nat \<Rightarrow> (string \<times> string list) list \<Rightarrow> sys \<Rightarrow> bool" where
  "stranded q st len log y \<longleftrightarrow>
     (\<forall>w \<in> set (y_workers y). finished (w_pc w)) \<and> length (y_workers y) = len \<and>
     \<not> s_running (y_sup y) \<and> s_status (y_sup y) = st \<and> s_relay (y_sup y) = Some q \<and>
     q \<in> s_alive (y_sup y) \<and> s_log (y_sup y) = log"

fun undisturbed :: "nat \<Rightarrow> event \<Rightarrow> bool" where
  "undisturbed q (EStart t cfg via) = False"
| "undisturbed q (EStopper n) = False"
| "undisturbed q (EExit p) = (p \<noteq> q)"
| "undisturbed q _ = True"

interpretation stranding: event_system sys_next "undisturbed q" "stranded q st len log" for q st len log
proof unfold_locales
  fix y e
  assume y: "stranded q st len log y" and e: "undisturbed q e"
  show "stranded q st len log (sys_next e y)"
  proof (cases e)
    case (EWorker n a)
    then have "sys_next e y = y"
      using y finished_stays [of "y_workers y ! n" a "y_sup y"] by (auto simp: stranded_def)
    with y show ?thesis by simp
  qed (use y e in \<open>auto simp: stranded_def\<close>)
qed

section \<open>Properties\<close>

text \<open>
  Connected is never claimed on the word of a living process: in every run, whatever the
  interleaving of workers and calls of start and stop, the status is Connected only if some
  worker has completed a SOCKS handshake with the port after starting its client.
\<close>

theorem connected_was_probed:
  assumes "s_status (y_sup (run es sys_new)) = Connected"
  shows "\<exists>pre n a post i p. es = pre @ EWorker n a # post \<and> a_reach a \<and>
           n < length (y_workers (run pre sys_new)) \<and>
           w_pc (y_workers (run pre sys_new) ! n) = StartProbe i p"
proof -
  have "claims (fold sys_next es sys_new)" "\<not> claims sys_new"
    using assms by (simp_all add: claims_def run_def sys_new_def sup_new_def)
  from fold_first [OF this] claims_next show ?thesis unfolding run_def by metis
qed

text \<open>
  Whatever the interleaving, a worker waits 5, 10, 20, 40 or 60 seconds, the status is Connected only
  while some worker is between having written it and writing the status again, and a process is in
  the client slot only while a worker watches it.
\<close>

theorem supervisor_invariant:
  "(\<forall>w \<in> set (y_workers (run es sys_new)). w_backoff w \<in> {5, 10, 20, 40, 60}) \<and>
   (s_status (y_sup (run es sys_new)) = Connected \<longrightarrow>
      (\<exists>w \<in> set (y_workers (run es sys_new)). online (w_pc w))) \<and>
   (s_child (y_sup (run es sys_new)) \<noteq> None \<longrightarrow>
      (\<exists>w \<in> set (y_workers (run es sys_new)). watching (w_pc w)))"
  using shared_ok_run [of es] by (simp add: shared_ok_def backoffs_def)

text \<open>
  (C3) As long as \<^verbatim>\<open>start\<close> never finds a worker on its way, no process escapes: every client or
  relay that is alive is held by the current worker or sits in a slot that \<^verbatim>\<open>stop\<close> empties.
\<close>

theorem calm_run_owns_processes:
  assumes "calm_run es sys_new"
  shows "s_alive (y_sup (run es sys_new)) \<subseteq>
           held (current (run es sys_new)) \<union> set_option (s_child (y_sup (run es sys_new))) \<union>
           set_option (s_relay (y_sup (run es sys_new)))"
  using sole_ok_run [OF assms] by (simp add: sole_ok_def sole_def)

text \<open>
  (C2) Stopping works: after a calm run whose running flag is down, once every worker has been
  given twelve more steps (and nothing is started), all workers have ended; and unless the last
  one ended because a program could not be started, the status is Stopped, both slots are empty
  and no process is left.
\<close>

theorem stop_shuts_down:
  assumes "calm_run es sys_new" and "\<not> s_running (y_sup (run es sys_new))"
    and "\<forall>e \<in> set fs. \<not> is_start e"
    and "\<forall>n < length (y_workers (run es sys_new)). 12 \<le> steps_of n fs"
  shows "(\<forall>w \<in> set (y_workers (run (es @ fs) sys_new)). finished (w_pc w)) \<and>
         (current (run (es @ fs) sys_new) \<noteq> Failed \<longrightarrow>
            s_status (y_sup (run (es @ fs) sys_new)) = Stopped \<and>
            s_child (y_sup (run (es @ fs) sys_new)) = None \<and>
            s_relay (y_sup (run (es @ fs) sys_new)) = None \<and>
            s_alive (y_sup (run (es @ fs) sys_new)) = {})"
proof -
  let ?y = "run es sys_new" and ?z = "run (es @ fs) sys_new"
  have len: "length (y_workers ?z) = length (y_workers ?y)"
    using stopped_run [OF assms(2,3)] by (simp add: run_append)
  have "finished (w_pc (y_workers ?z ! n))" if "n < length (y_workers ?y)" for n
    using stopped_run [OF assms(2,3), of n] that assms(4) rank_le [of "w_pc (y_workers ?y ! n)"]
    by (auto simp: run_append work_left_def simp flip: rank_0)
  then have fin: "\<forall>w \<in> set (y_workers ?z). finished (w_pc w)"
    by (metis in_set_conv_nth len)
  have "sole_ok ?z"
    using sole_ok_run [of "es @ fs"] assms(1,3) by (simp add: calm_run_append calm_without_start)
  with fin show ?thesis using sole_ok_finished by blast
qed

text \<open>
  (C39) A worker whose client has ended shows how long it waits and then waits it out: left
  running, it sleeps as many seconds as the backoff says and comes round with the next backoff.
\<close>

theorem backoff_waits:
  assumes "w_pc w = AfterChild" and "s_running s"
  shows "(alone a ^^ (unat (w_backoff w) + 3)) (w, s) =
           (w\<lparr>w_pc := Loop, w_backoff := next_backoff (w_backoff w)\<rparr>,
            s\<lparr>s_status := Reconnecting (retry_msg (w_backoff w))\<rparr>)"
proof -
  let ?s = "s\<lparr>s_status := Reconnecting (retry_msg (w_backoff w))\<rparr>"
  have "(alone a ^^ 2) (w, s) = (w\<lparr>w_pc := Sleep 0\<rparr>, ?s)"
    using assms by (simp add: numeral_2_eq_2 alone_def worker_eval)
  moreover have "(alone a ^^ unat (w_backoff w)) (w\<lparr>w_pc := Sleep 0\<rparr>, ?s) =
      (w\<lparr>w_pc := Sleep (w_backoff w)\<rparr>, ?s)"
    using sleep_run [of ?s "w\<lparr>w_pc := Sleep 0\<rparr>" 0 "unat (w_backoff w)"] assms by simp
  moreover have "alone a (w\<lparr>w_pc := Sleep (w_backoff w)\<rparr>, ?s) =
      (w\<lparr>w_pc := Loop, w_backoff := next_backoff (w_backoff w)\<rparr>, ?s)"
    by (simp add: alone_def worker_eval)
  moreover have "unat (w_backoff w) + 3 = Suc (unat (w_backoff w) + 2)" by simp
  ultimately show ?thesis by (simp only: funpow.simps(2) funpow_add o_apply)
qed

text \<open>
  After \<open>n\<close> attempts without success a worker that began with 5 seconds waits
  \<open>5 * 2^n\<close> seconds, never more than a minute.
\<close>

theorem backoff_doubles: "unat ((next_backoff ^^ n) 5) = min (5 * 2 ^ n) 60"
proof (induction n)
  case (Suc n)
  then show ?case
    using unat_next_backoff [of "(next_backoff ^^ n) 5"] by (simp add: min_def)
qed simp

text \<open>Answers of a system in which every program starts and every port answers, and their opposite.\<close>

definition willing :: "store \<Rightarrow> answer" where
  "willing f = \<lparr>a_spawn = Ok (), a_reach = True, a_wait_ok = True, a_files = f\<rparr>"

definition refusing :: "string \<Rightarrow> store \<Rightarrow> answer" where
  "refusing e f = \<lparr>a_spawn = Err e, a_reach = False, a_wait_ok = True, a_files = f\<rparr>"

definition stop_call :: "nat \<Rightarrow> event list" where
  "stop_call n = EStop # replicate 4 (EStopper n)"

definition session :: "transport \<Rightarrow> config \<Rightarrow> relay option \<Rightarrow> store \<Rightarrow> event list" where
  "session t cfg via f = EStart t cfg via # replicate 7 (EWorker 0 (willing f))"

theorem connected_was_probed_witness:
  "\<exists>pre n a post i p.
     session (Plink [''plink.exe'']) default_config None (\<lambda>_. None) = pre @ EWorker n a # post \<and>
     a_reach a \<and> n < length (y_workers (run pre sys_new)) \<and>
     w_pc (y_workers (run pre sys_new) ! n) = StartProbe i p"
  by (rule connected_was_probed) code_simp

definition sample_session :: "event list" where
  "sample_session = session (Plink [''plink.exe'']) default_config None (\<lambda>_. None)"

theorem calm_run_owns_processes_witness:
  "s_alive (y_sup (run sample_session sys_new)) = {0} \<and>
   s_alive (y_sup (run sample_session sys_new)) \<subseteq>
     held (current (run sample_session sys_new)) \<union>
     set_option (s_child (y_sup (run sample_session sys_new))) \<union>
     set_option (s_relay (y_sup (run sample_session sys_new)))"
proof (rule conjI)
  show "s_alive (y_sup (run sample_session sys_new)) = {0}" by code_simp
qed (rule calm_run_owns_processes, code_simp)

theorem supervisor_invariant_witness:
  "list_ex (\<lambda>w. online (w_pc w)) (y_workers (run sample_session sys_new))"
proof -
  have "s_status (y_sup (run sample_session sys_new)) = Connected" by code_simp
  then show ?thesis using supervisor_invariant [of sample_session] by (simp add: list_ex_iff)
qed

theorem stop_shuts_down_witness:
  "list_all (\<lambda>w. finished (w_pc w)) (y_workers (run ((sample_session @ take 2 (stop_call 0)) @
       drop 2 (stop_call 0) @ replicate 12 (EWorker 0 (willing (\<lambda>_. None)))) sys_new)) \<and>
   s_alive (y_sup (run ((sample_session @ take 2 (stop_call 0)) @
       drop 2 (stop_call 0) @ replicate 12 (EWorker 0 (willing (\<lambda>_. None)))) sys_new)) = {}"
proof -
  let ?es = "sample_session @ take 2 (stop_call 0)"
  let ?fs = "drop 2 (stop_call 0) @ replicate 12 (EWorker 0 (willing (\<lambda>_. None)))"
  have "calm_run ?es sys_new" "\<not> s_running (y_sup (run ?es sys_new))"
    "\<forall>e \<in> set ?fs. \<not> is_start e" "current (run (?es @ ?fs) sys_new) \<noteq> Failed"
    by code_simp+
  moreover have "length (y_workers (run ?es sys_new)) = 1" "12 \<le> steps_of 0 ?fs" by code_simp+
  ultimately show ?thesis using stop_shuts_down [of ?es ?fs] by (simp add: list_all_iff)
qed

theorem backoff_waits_witness:
  "(alone (willing (\<lambda>_. None)) ^^ (unat (5 :: u64) + 3))
     ((new_worker (Plink [''plink.exe'']) default_config None)\<lparr>w_pc := AfterChild\<rparr>,
      sup_new\<lparr>s_running := True\<rparr>) =
   ((new_worker (Plink [''plink.exe'']) default_config None)\<lparr>w_backoff := 10\<rparr>,
    sup_new\<lparr>s_running := True, s_status := Reconnecting (retry_msg 5)\<rparr>)"
  using backoff_waits [of "(new_worker (Plink [''plink.exe'']) default_config None)\<lparr>w_pc := AfterChild\<rparr>"
      "sup_new\<lparr>s_running := True\<rparr>" "willing (\<lambda>_. None)"]
  by (simp add: new_worker_def next_backoff_def)

definition overlap :: "transport \<Rightarrow> config \<Rightarrow> store \<Rightarrow> event list" where
  "overlap t cfg f =
     EStart t cfg None # replicate 4 (EWorker 0 (willing f)) @ stop_call 0 @
     EStart t cfg None # replicate 3 (EWorker 1 (willing f)) @ replicate 3 (EWorker 0 (willing f)) @
     replicate 4 (EWorker 1 (willing f)) @ stop_call 1 @
     replicate 5 (EWorker 0 (willing f)) @ replicate 5 (EWorker 1 (willing f))"

lemmas trace_eval =
  eval_nat_numeral stop_call_def worker_eval start_def new_worker_def sys_new_def sup_new_def
  willing_def refusing_def launch_def kill_def take_child_def take_relay_def exited_def

text \<open>
  (C34) A quick stop and start loses a process. While the first worker waits in its handshake,
  \<^verbatim>\<open>stop\<close> finds no client in the slot to kill; \<^verbatim>\<open>start\<close> then raises the flag again before the worker
  has looked at it and adds a second worker. Both go on, the second client overwrites the first
  in the slot, and after a last stop everything has ended and shows Stopped, while the first
  client is still alive and in no slot.
\<close>

theorem restart_orphans_client:
  "let y = run (overlap t cfg f) sys_new in
     map w_pc (y_workers y) = [Done, Done] \<and> s_status (y_sup y) = Stopped \<and>
     s_child (y_sup y) = None \<and> s_relay (y_sup y) = None \<and> s_alive (y_sup y) = {0}"
  by (simp add: overlap_def trace_eval)


definition relay_up :: "event list" where
  "relay_up = EStart (Plink [''plink.exe'']) default_config
       (Some (relay_new [''wstunnel.exe''] ''wss://a'' ''h:22'' 9000 [])) #
     replicate 7 (EWorker 0 (willing (\<lambda>_. None)))"


text \<open>
  (C12) A lost connection does not stay Connected on the screen: after any calm run, when the client that
  the latest worker watches has ended (or is no longer in the slot), then, as long as nothing is
  started and \<^verbatim>\<open>try_wait\<close> works, the status has been something else by the time this worker
  has taken seven steps, whatever calls of stop and ends of processes come in between.
\<close>

theorem lost_client_is_shown:
  assumes "calm_run es sys_new" and "y = run es sys_new" and "length (y_workers y) = Suc n"
    and "watching (w_pc (y_workers y ! n))" and "set_option (s_child (y_sup y)) \<inter> s_alive (y_sup y) = {}"
    and "list_all attentive fs" and "7 \<le> steps_of n fs"
  shows "\<exists>pre post. fs = pre @ post \<and> s_status (y_sup (run pre y)) \<noteq> Connected"
proof (rule losing_run [OF _ assms(6)])
  have "\<forall>w \<in> set (butlast (y_workers y)). finished (w_pc w)"
    using sole_ok_run [OF assms(1)] assms(2) by (simp add: sole_ok_def)
  then have others: "\<forall>m < length (y_workers y). m \<noteq> n \<longrightarrow> finished (w_pc (y_workers y ! m))"
    using assms(3) by (metis in_set_conv_nth length_butlast diff_Suc_1 less_Suc_eq nth_butlast)
  show "losing n y" using assms(3-5) others by (cases "w_pc (y_workers y ! n)") (auto simp: losing_def)
  show "loss_left (w_pc (y_workers y ! n)) \<le> steps_of n fs"
    using assms(4,7) by (cases "w_pc (y_workers y ! n)") auto
qed

definition client_dies :: "event list" where
  "client_dies = sample_session @ [EWorker 0 (willing (\<lambda>_. None)), EExit 0]"

theorem lost_client_is_shown_witness:
  "s_status (y_sup (run client_dies sys_new)) = Connected \<and>
   (\<exists>pre post. replicate 7 (EWorker 0 (willing (\<lambda>_. None))) = pre @ post \<and>
      s_status (y_sup (run pre (run client_dies sys_new))) \<noteq> Connected)"
proof -
  have y: "calm_run client_dies sys_new" "length (y_workers (run client_dies sys_new)) = Suc 0"
    "watching (w_pc (y_workers (run client_dies sys_new) ! 0))"
    "set_option (s_child (y_sup (run client_dies sys_new))) \<inter> s_alive (y_sup (run client_dies sys_new)) = {}"
    "s_status (y_sup (run client_dies sys_new)) = Connected"
    by code_simp+
  have fs: "list_all attentive (replicate 7 (EWorker 0 (willing (\<lambda>_. None))))"
    "7 \<le> steps_of 0 (replicate 7 (EWorker 0 (willing (\<lambda>_. None))))"
    by code_simp+
  show ?thesis by (rule conjI [OF y(5) lost_client_is_shown [OF y(1) refl y(2-4) fs]])
qed

section \<open>The life of a worker\<close>

text \<open>
  What a user is promised, without threads and processes: a worker connects, is online, waits
  before it connects again, and ends either by closing or broken.
\<close>

datatype life = Connecting | Online | Pausing | Closing | Ended | Broken

inductive life_step :: "life \<Rightarrow> life \<Rightarrow> bool" where
  "life_step Connecting Online"
| "life_step Connecting Pausing"
| "life_step Connecting Closing"
| "life_step Connecting Broken"
| "life_step Online Pausing"
| "life_step Pausing Connecting"
| "life_step Pausing Closing"
| "life_step Closing Ended"

code_pred life_step .

inductive_simps life_step_simps [simp]: "life_step x y"

fun life_of :: "pc \<Rightarrow> life" where
  "life_of (RelayFailed e) = Broken"
| "life_of RelayFlag = Broken"
| "life_of (SpawnFailed e) = Broken"
| "life_of SpawnFlag = Broken"
| "life_of Failed = Broken"
| "life_of (StoreChild p) = Online"
| "life_of Watch = Online"
| "life_of WatchTry = Online"
| "life_of WatchProbe = Online"
| "life_of TakeChild = Online"
| "life_of AfterChild = Pausing"
| "life_of SetRetrying = Pausing"
| "life_of (Sleep k) = Pausing"
| "life_of ExitRelay = Closing"
| "life_of ExitStatus = Closing"
| "life_of Done = Ended"
| "life_of _ = Connecting"

fun announces :: "life \<Rightarrow> status \<Rightarrow> bool" where
  "announces Connecting st = (st = Starting \<or> st = Reconnecting relay_down_msg)"
| "announces Online st = (st = Connected)"
| "announces Pausing st = list_ex (\<lambda>b. st = Reconnecting (retry_msg b)) [5, 10, 20, 40, 60]"
| "announces Closing st = False"
| "announces Ended st = (st = Stopped)"
| "announces Broken st = (case st of Error e \<Rightarrow> True | _ \<Rightarrow> False)"

lemma worker_life:
  "worker_step a w s = (w', s') \<Longrightarrow>
   life_of (w_pc w') = life_of (w_pc w) \<or> life_step (life_of (w_pc w)) (life_of (w_pc w'))"
  by (cases "w_pc w")
    (auto simp: worker_eval split: if_splits option.splits sum.splits)

lemma worker_announces:
  "worker_step a w s = (w', s') \<Longrightarrow> w_backoff w \<in> backoffs \<Longrightarrow>
   s_status s' = s_status s \<or> announces (life_of (w_pc w')) (s_status s')"
  by (cases "w_pc w")
    (auto simp: worker_eval backoffs_def split: if_splits option.splits sum.splits)

text \<open>
  (C4) The supervisor implements the life of a worker: in every run each event moves each worker along
  it (connecting, online, pausing, closing, ended, broken) or leaves it where it is, and a worker that
  changes the status announces the part of its life it is then in.
\<close>

theorem supervisor_refines_life:
  assumes "n < length (y_workers (run es sys_new))"
  shows "(life_of (w_pc (y_workers (run (es @ [e]) sys_new) ! n)) =
            life_of (w_pc (y_workers (run es sys_new) ! n)) \<or>
          life_step (life_of (w_pc (y_workers (run es sys_new) ! n)))
            (life_of (w_pc (y_workers (run (es @ [e]) sys_new) ! n)))) \<and>
         (\<forall>a. e = EWorker n a \<longrightarrow>
            s_status (y_sup (run (es @ [e]) sys_new)) = s_status (y_sup (run es sys_new)) \<or>
            announces (life_of (w_pc (y_workers (run (es @ [e]) sys_new) ! n)))
              (s_status (y_sup (run (es @ [e]) sys_new))))"
proof (cases e)
  case (EWorker m a)
  let ?y = "run es sys_new"
  obtain w s where st: "worker_step a (y_workers ?y ! m) (y_sup ?y) = (w, s)" by fastforce
  have "w_backoff (y_workers ?y ! n) \<in> backoffs"
    using shared_ok_run [of es] assms by (simp add: shared_ok_def)
  then show ?thesis
    using assms EWorker st worker_life [OF st] worker_announces [OF st]
    by (cases "m = n") auto
qed (use assms in \<open>auto simp: start_def nth_append split: prod.split\<close>)

theorem supervisor_refines_life_witness:
  "life_of (w_pc (y_workers (run (take 6 sample_session @ [EWorker 0 (willing (\<lambda>_. None))]) sys_new) ! 0)) = Online \<and>
   (life_of (w_pc (y_workers (run (take 6 sample_session @ [EWorker 0 (willing (\<lambda>_. None))]) sys_new) ! 0)) =
      life_of (w_pc (y_workers (run (take 6 sample_session) sys_new) ! 0)) \<or>
    life_step (life_of (w_pc (y_workers (run (take 6 sample_session) sys_new) ! 0)))
      (life_of (w_pc (y_workers (run (take 6 sample_session @ [EWorker 0 (willing (\<lambda>_. None))]) sys_new) ! 0))))"
proof (rule conjI)
  show "life_of (w_pc (y_workers (run (take 6 sample_session @ [EWorker 0 (willing (\<lambda>_. None))]) sys_new) ! 0)) = Online"
    by code_simp
next
  have "0 < length (y_workers (run (take 6 sample_session) sys_new))" by code_simp
  from supervisor_refines_life [OF this, of "EWorker 0 (willing (\<lambda>_. None))"]
  show "life_of (w_pc (y_workers (run (take 6 sample_session @ [EWorker 0 (willing (\<lambda>_. None))]) sys_new) ! 0)) =
      life_of (w_pc (y_workers (run (take 6 sample_session) sys_new) ! 0)) \<or>
    life_step (life_of (w_pc (y_workers (run (take 6 sample_session) sys_new) ! 0)))
      (life_of (w_pc (y_workers (run (take 6 sample_session @ [EWorker 0 (willing (\<lambda>_. None))]) sys_new) ! 0)))"
    by (rule conjunct1)
qed

end
