(* ===== verification/Json_Value.thy ===== *)
theory Json_Value
  imports Prelude
begin

text \<open>
  The \<^verbatim>\<open>serde_json::Value\<close> the sources read replies through: its shape and the accessors
  \<^verbatim>\<open>get\<close>, \<^verbatim>\<open>as_str\<close> and \<^verbatim>\<open>as_u64\<close>. Parsing text into a value is the library's, and a
  parameter wherever it is used.
\<close>

datatype json_num = PosInt u64 | NegInt int | FloatNum string

datatype json =
    JNull
  | JBool bool
  | JNum json_num
  | JStr string
  | JArr "json list"
  | JObj "(string \<times> json) list"

fun json_get :: "string \<Rightarrow> json \<Rightarrow> json option" where
  "json_get k (JObj m) = map_of m k"
| "json_get k _ = None"

fun as_str :: "json \<Rightarrow> string option" where
  "as_str (JStr s) = Some s"
| "as_str _ = None"

fun as_u64 :: "json \<Rightarrow> u64 option" where
  "as_u64 (JNum (PosInt n)) = Some n"
| "as_u64 _ = None"

definition get_str :: "string \<Rightarrow> json \<Rightarrow> string option" where
  "get_str k v = Option.bind (json_get k v) as_str"

definition get_u64 :: "string \<Rightarrow> json \<Rightarrow> u64 option" where
  "get_u64 k v = Option.bind (json_get k v) as_u64"

definition unwrap_or :: "'a \<Rightarrow> 'a option \<Rightarrow> 'a" where
  "unwrap_or d x = (case x of None \<Rightarrow> d | Some y \<Rightarrow> y)"

text \<open>
  The closure every reply is read with:
  \<^verbatim>\<open>v.get(k).and_then(|x| x.as_str()).unwrap_or("").to_string()\<close>.
\<close>

definition str_field :: "json \<Rightarrow> string \<Rightarrow> string" where
  "str_field v k = unwrap_or [] (get_str k v)"

text \<open>
  What a \<^verbatim>\<open>ureq\<close> call returns: a response (its status, and what \<^verbatim>\<open>into_json\<close> makes of its
  body), an error status with the response that carried it, or a transport error with its text.
\<close>

datatype response = Response (resp_status: u16) (resp_json: "json result")
datatype http_error = StatusError response | TransportError string
type_synonym http_result = "http_error + response"

lemma unwrap_or_simps [simp]: "unwrap_or d None = d" "unwrap_or d (Some y) = y"
  by (simp_all add: unwrap_or_def)

lemma str_field_JNull [simp]: "str_field JNull k = []"
  by (simp add: str_field_def get_str_def)

end
