(* ===== verification/Net.thy ===== *)
theory Net
  imports Encoding Json_Value
begin

text \<open>
  \<^verbatim>\<open>net.rs\<close>: which HTTP proxy a request goes through, the remembered proxy, the guard in front of
  the PowerShell query, and the connectivity report. The registry query, PowerShell, the
  resolver, TCP and the HTTP client are parameters; their outputs are parsed here as the code
  parses them. The Windows build is modelled (the other one answers \<^verbatim>\<open>None\<close> for each query).
\<close>

section \<open>The remembered proxy\<close>

definition remember :: "string \<Rightarrow> string \<Rightarrow> string" where
  "remember proxy slot = (if trim proxy = [] then slot else trim proxy)"

definition last_good :: "string \<Rightarrow> string" where
  "last_good slot = slot"

definition forget :: "string \<Rightarrow> string" where
  "forget slot = []"

section \<open>What a detection found\<close>

record proxy_info =
  pi_url :: string
  pi_source :: string
  pi_pac :: string

definition no_proxy_info :: proxy_info where
  "no_proxy_info = \<lparr>pi_url = [], pi_source = [], pi_pac = []\<rparr>"

definition em_dash :: string where
  "em_dash = [CHR 0xE2, CHR 0x80, CHR 0x94]"

definition proxy_describe :: "proxy_info \<Rightarrow> string" where
  "proxy_describe i =
     (if pi_url i \<noteq> [] then pi_url i @ '' ('' @ pi_source i @ '')''
      else if pi_pac i \<noteq> []
      then ''auto-config script '' @ em_dash @ '' not readable ('' @ pi_pac i @ '')''
      else ''none'')"

section \<open>The sources\<close>

record sysenv =
  env_var :: "string \<Rightarrow> string option"
  reg_query :: "string \<Rightarrow> (bool \<times> string) option"
  powershell :: "string \<Rightarrow> string option"

fun first_env :: "sysenv \<Rightarrow> string list \<Rightarrow> (string \<times> string) option" where
  "first_env sys [] = None"
| "first_env sys (key # keys) =
     (case env_var sys key of
        None \<Rightarrow> first_env sys keys
      | Some v \<Rightarrow> if trim v \<noteq> [] then Some (trim v, ''$'' @ key) else first_env sys keys)"

definition from_env :: "sysenv \<Rightarrow> (string \<times> string) option" where
  "from_env sys =
     first_env sys [''HTTPS_PROXY'', ''https_proxy'', ''HTTP_PROXY'', ''http_proxy'',
                    ''ALL_PROXY'', ''all_proxy'']"

definition reg_value :: "sysenv \<Rightarrow> string \<Rightarrow> string option" where
  "reg_value sys name =
     (case reg_query sys name of
        None \<Rightarrow> None
      | Some (success, out) \<Rightarrow>
          if \<not> success then None
          else (case find (\<lambda>l. starts_with (trim_start l) name) (lines (from_utf8_lossy out)) of
                  None \<Rightarrow> None
                | Some line \<Rightarrow>
                    (case words line of
                       _ # _ # rest \<Rightarrow> if rest = [] then None else Some (join '' '' rest)
                     | _ \<Rightarrow> None)))"

fun pick_scheme_loop :: "string option \<Rightarrow> string list \<Rightarrow> string option" where
  "pick_scheme_loop http [] = http"
| "pick_scheme_loop http (part # parts) =
     (let (k, v) = (case split_once (CHR ''='') part of None \<Rightarrow> (part, []) | Some kv \<Rightarrow> kv);
          k = to_ascii_lowercase (trim k);
          v = trim v
      in if v = [] then pick_scheme_loop http parts
         else if k = ''https'' then Some v
         else if k = ''http'' then pick_scheme_loop (Some v) parts
         else pick_scheme_loop http parts)"

definition pick_scheme :: "string \<Rightarrow> string option" where
  "pick_scheme raw =
     (let raw = trim raw
      in if raw = [] then None
         else if CHR ''='' \<notin> set raw then Some raw
         else pick_scheme_loop None (split_on (CHR '';'') raw))"

definition normalise :: "string \<Rightarrow> string" where
  "normalise v =
     (let v = trim v
      in if starts_with v ''http://'' \<or> starts_with v ''https://'' \<or> starts_with v ''socks5://''
         then v else ''http://'' @ v)"

definition url_char :: "char \<Rightarrow> bool" where
  "url_char c \<longleftrightarrow>
     (48 \<le> code_of c \<and> code_of c \<le> 57) \<or> (65 \<le> code_of c \<and> code_of c \<le> 90) \<or>
     (97 \<le> code_of c \<and> code_of c \<le> 122) \<or> c \<in> set '':/._-?=&%~''"

definition proxy_script :: "string \<Rightarrow> string" where
  "proxy_script target =
     ''$u=[Uri]'' @ [CHR 0x27] @ target @ [CHR 0x27] @
     ''; $p=[System.Net.WebRequest]::GetSystemWebProxy().GetProxy($u); if ($p -ne $null -and $p.AbsoluteUri -ne $u.AbsoluteUri) { $p.AbsoluteUri }''"

text \<open>
  \<^verbatim>\<open>system_proxy_for\<close> with what it does besides its result: the scripts handed to PowerShell, in order.
\<close>

definition system_proxy_run :: "sysenv \<Rightarrow> string \<Rightarrow> string list \<times> string option" where
  "system_proxy_run sys target =
     (if target = [] \<or> 300 < length target \<or> \<not> list_all url_char target then ([], None)
      else
        (let script = proxy_script target
         in ([script],
             case powershell sys script of
               None \<Rightarrow> None
             | Some out \<Rightarrow>
                 (let s = trim (from_utf8_lossy out)
                  in if s = [] \<or> \<not> starts_with s ''http'' then None else Some s))))"

definition system_proxy_for :: "sysenv \<Rightarrow> string \<Rightarrow> string option" where
  "system_proxy_for sys target = snd (system_proxy_run sys target)"

section \<open>Detection\<close>

definition detect :: "sysenv \<Rightarrow> string \<Rightarrow> proxy_info" where
  "detect sys override_url =
     (if trim override_url \<noteq> []
      then no_proxy_info\<lparr>pi_url := normalise override_url, pi_source := ''app setting''\<rparr>
      else case from_env sys of
        Some (v, src) \<Rightarrow> no_proxy_info\<lparr>pi_url := normalise v, pi_source := src\<rparr>
      | None \<Rightarrow>
          (let enabled = (case reg_value sys ''ProxyEnable'' of
                            None \<Rightarrow> False | Some v \<Rightarrow> ends_with (trim v) ''1'');
               server = (if enabled then Option.bind (reg_value sys ''ProxyServer'') pick_scheme
                         else None)
           in case server of
                Some p \<Rightarrow> no_proxy_info\<lparr>pi_url := normalise p, pi_source := ''Windows settings''\<rparr>
              | None \<Rightarrow>
                  (case reg_value sys ''AutoConfigURL'' of
                     None \<Rightarrow> no_proxy_info
                   | Some pac \<Rightarrow> if trim pac \<noteq> [] then no_proxy_info\<lparr>pi_pac := trim pac\<rparr>
                                 else no_proxy_info)))"

text \<open>\<open>slot\<close> is the remembered proxy, the contents of \<^verbatim>\<open>LAST_GOOD\<close>.\<close>

definition detect_for :: "sysenv \<Rightarrow> string \<Rightarrow> string \<Rightarrow> string \<Rightarrow> proxy_info" where
  "detect_for sys slot override_url target =
     (let info = detect sys override_url
      in if pi_url info \<noteq> [] then info
         else case system_proxy_for sys target of
                Some p \<Rightarrow> info\<lparr>pi_url := normalise p, pi_source := ''Windows (WPAD/PAC)''\<rparr>
              | None \<Rightarrow>
                  (let remembered = last_good slot
                   in if remembered \<noteq> []
                      then info\<lparr>pi_url := normalise remembered, pi_source := ''remembered''\<rparr>
                      else info))"

text \<open>
  The agent that is built: its two timeouts in seconds, and the proxy, which is left out when
  the library's \<open>parse\<close> refuses its URL.
\<close>

record 'p agent =
  ag_connect_timeout :: u64
  ag_timeout :: u64
  ag_proxy :: "'p option"

definition build_agent :: "(string \<Rightarrow> 'p option) \<Rightarrow> proxy_info \<Rightarrow> u64 \<Rightarrow> 'p agent" where
  "build_agent parse info timeout_secs =
     \<lparr>ag_connect_timeout = min timeout_secs 15, ag_timeout = timeout_secs,
      ag_proxy = (if pi_url info \<noteq> [] then parse (pi_url info) else None)\<rparr>"

definition agent_for ::
    "sysenv \<Rightarrow> string \<Rightarrow> (string \<Rightarrow> 'p option) \<Rightarrow> string \<Rightarrow> string \<Rightarrow> u64 \<Rightarrow> 'p agent" where
  "agent_for sys slot parse override_url target timeout_secs =
     build_agent parse (detect_for sys slot override_url target) timeout_secs"

definition agent_without_target ::
    "sysenv \<Rightarrow> (string \<Rightarrow> 'p option) \<Rightarrow> string \<Rightarrow> u64 \<Rightarrow> 'p agent" where
  "agent_without_target sys parse override_url timeout_secs =
     build_agent parse (detect sys override_url) timeout_secs"

section \<open>The connectivity report\<close>

record check =
  chk_name :: string
  chk_ok :: bool
  chk_detail :: string

text \<open>
  The network as the report sees it: the resolver (an address as its IP text and its display
  text), a connection attempt, the call to the service, and the elapsed time as it is printed.
\<close>

type_synonym sock_addr = "string \<times> string"

record netenv =
  resolve :: "string \<Rightarrow> u16 \<Rightarrow> sock_addr list result"
  connect :: "sock_addr \<Rightarrow> u64 \<Rightarrow> bool"
  https_get :: "string \<Rightarrow> http_result"
  elapsed :: string

definition mk_check :: "string \<Rightarrow> bool \<Rightarrow> string \<Rightarrow> check" where
  "mk_check name ok detail = \<lparr>chk_name = name, chk_ok = ok, chk_detail = detail\<rparr>"

definition tcp_check :: "netenv \<Rightarrow> string \<Rightarrow> u16 \<Rightarrow> u64 \<Rightarrow> check" where
  "tcp_check net host port secs =
     (let label = ''TCP '' @ host @ '':'' @ show_word port
      in case resolve net host port of
           Err e \<Rightarrow> mk_check label False (''DNS failed: '' @ e)
         | Ok [] \<Rightarrow> mk_check label False ''no addresses returned''
         | Ok (a0 # as) \<Rightarrow>
             (case find (\<lambda>a. connect net a secs) (a0 # as) of
                Some a \<Rightarrow> mk_check label True (''connected to '' @ snd a @ '' in '' @ elapsed net)
              | None \<Rightarrow> mk_check label False
                          (''could not connect to '' @ snd a0 @ '' after '' @ elapsed net)))"

definition https_check :: "netenv \<Rightarrow> string \<Rightarrow> check" where
  "https_check net url =
     (case https_get net url of
        Inr r \<Rightarrow> mk_check ''HTTPS /config'' True (''HTTP '' @ show_word (resp_status r))
      | Inl (StatusError r) \<Rightarrow>
          if resp_status r = 407
          then mk_check ''HTTPS /config'' False
                 (''HTTP 407 '' @ em_dash @ '' the proxy demands authentication (likely NTLM/Kerberos, which this client cannot do)'')
          else mk_check ''HTTPS /config'' False (''HTTP '' @ show_word (resp_status r))
      | Inl (TransportError e) \<Rightarrow>
          mk_check ''HTTPS /config'' False (e @ '' (after '' @ elapsed net @ '')''))"

definition connectivity_report ::
    "sysenv \<Rightarrow> string \<Rightarrow> netenv \<Rightarrow> string \<Rightarrow> u16 \<Rightarrow> string \<Rightarrow> check list" where
  "connectivity_report sys slot net base_host tunnel_port proxy_override =
     (let target = ''https://'' @ base_host @ ''/config'';
          info = detect_for sys slot proxy_override target;
          head = [mk_check ''Proxy'' True (proxy_describe info),
                  mk_check ''Windows proxy for this URL'' True
                    (unwrap_or ''direct (no proxy)'' (system_proxy_for sys target))]
      in if base_host = [] then head @ [mk_check ''Server address'' False ''not set'']
         else head @
           [(case resolve net base_host 443 of
               Ok a \<Rightarrow> mk_check ''DNS'' (a \<noteq> []) (join '', '' (map fst a))
             | Err e \<Rightarrow> mk_check ''DNS'' False e),
            tcp_check net ''www.microsoft.com'' 443 6,
            tcp_check net base_host 443 8,
            tcp_check net base_host tunnel_port 8,
            https_check net target])"

section \<open>The accent colour\<close>

definition hex6 :: "nat \<Rightarrow> string" where
  "hex6 n = map (\<lambda>i. digit_char (n div 16 ^ i mod 16)) [5, 4, 3, 2, 1, 0]"

definition accent_of :: "bool \<times> string \<Rightarrow> string option" where
  "accent_of out =
     (if \<not> fst out then None
      else case find (\<lambda>t. starts_with t ''0x'' \<and> 4 < length t) (words (from_utf8_lossy (snd out))) of
             None \<Rightarrow> None
           | Some tok \<Rightarrow>
               map_option (\<lambda>v. ''#'' @ hex6 (unat ((of_nat v :: u32) AND 0x00FFFFFF)))
                 (parse_unsigned 16 (2 ^ 32) (trim_start_matches ''0x'' tok)))"

definition windows_accent :: "(bool \<times> string) option \<Rightarrow> string option" where
  "windows_accent query = Option.bind query accent_of"

section \<open>Which proxy is used\<close>

text \<open>
  The specification: an ordered list of candidates, each a URL and the name of its source, of
  which the first one present is used.
\<close>

fun first_some :: "'a option list \<Rightarrow> 'a option" where
  "first_some [] = None"
| "first_some (None # xs) = first_some xs"
| "first_some (Some x # xs) = Some x"

definition registry_proxy :: "sysenv \<Rightarrow> string option" where
  "registry_proxy sys =
     (case reg_value sys ''ProxyEnable'' of
        None \<Rightarrow> None
      | Some v \<Rightarrow> if ends_with (trim v) ''1'' then Option.bind (reg_value sys ''ProxyServer'') pick_scheme
                  else None)"

definition proxy_candidates ::
    "sysenv \<Rightarrow> string \<Rightarrow> string \<Rightarrow> string \<Rightarrow> (string \<times> string) option list" where
  "proxy_candidates sys slot override_url target =
     [if trim override_url \<noteq> [] then Some (normalise override_url, ''app setting'') else None,
      map_option (\<lambda>(v, src). (normalise v, src)) (from_env sys),
      map_option (\<lambda>p. (normalise p, ''Windows settings'')) (registry_proxy sys),
      map_option (\<lambda>p. (normalise p, ''Windows (WPAD/PAC)'')) (system_proxy_for sys target),
      if slot \<noteq> [] then Some (normalise slot, ''remembered'') else None]"

lemma normalise_not_Nil [simp]: "normalise v \<noteq> []"
  by (cases "trim v") (auto simp: normalise_def Let_def)

lemma no_proxy_info_simps [simp]:
  "pi_url no_proxy_info = []" "pi_source no_proxy_info = []" "pi_pac no_proxy_info = []"
  by (simp_all add: no_proxy_info_def)

text \<open>
  The order the comment at the head of \<^verbatim>\<open>net.rs\<close> announces, which puts Windows' own resolver before the
  registry.
\<close>

definition documented_candidates ::
  "sysenv \<Rightarrow> string \<Rightarrow> string \<Rightarrow> string \<Rightarrow> (string \<times> string) option list" where
  "documented_candidates sys slot override_url target =
     (let cs = proxy_candidates sys slot override_url target in cs[2 := cs ! 3, 3 := cs ! 2])"

text \<open>
  (C22) The proxy used for a request is the first hit of the candidates in order: the app's
  setting, the environment, the registry, Windows' own resolver for that URL, and last the
  proxy that worked before. Without a candidate the request goes out directly. The comment at the
  head of the source announces the resolver before the registry; the two orders choose differently
  exactly when neither the setting nor the environment names a proxy and both the registry and the
  resolver do.
\<close>

theorem detect_for_first_hit:
  "(pi_url (detect_for sys slot override_url target), pi_source (detect_for sys slot override_url target)) =
     unwrap_or ([], []) (first_some (proxy_candidates sys slot override_url target)) \<and>
   (first_some (documented_candidates sys slot override_url target) \<noteq>
      first_some (proxy_candidates sys slot override_url target)) =
   (trim override_url = [] \<and> from_env sys = None \<and> registry_proxy sys \<noteq> None \<and>
    system_proxy_for sys target \<noteq> None)"
proof (rule conjI)
  show "(pi_url (detect_for sys slot override_url target), pi_source (detect_for sys slot override_url target)) =
     unwrap_or ([], []) (first_some (proxy_candidates sys slot override_url target))"
  proof (cases "trim override_url = [] \<and> from_env sys = None")
    case True
    then have "pi_url (detect sys override_url) =
        (case registry_proxy sys of None \<Rightarrow> [] | Some p \<Rightarrow> normalise p)"
      and "pi_source (detect sys override_url) =
        (case registry_proxy sys of None \<Rightarrow> [] | Some p \<Rightarrow> ''Windows settings'')"
      by (auto simp: detect_def registry_proxy_def Let_def split: option.splits)
    with True show ?thesis
      by (auto simp: detect_for_def last_good_def proxy_candidates_def Let_def split: option.splits)
  qed (auto simp: detect_for_def last_good_def detect_def proxy_candidates_def Let_def split: option.splits)
  show "(first_some (documented_candidates sys slot override_url target) \<noteq>
      first_some (proxy_candidates sys slot override_url target)) =
    (trim override_url = [] \<and> from_env sys = None \<and> registry_proxy sys \<noteq> None \<and>
     system_proxy_for sys target \<noteq> None)"
    by (cases "from_env sys"; cases "registry_proxy sys"; cases "system_proxy_for sys target")
      (simp_all add: documented_candidates_def proxy_candidates_def Let_def)
qed

text \<open>
  The registry outranks Windows' own resolver: with a manual proxy switched on in the
  Internet Settings, PowerShell is never asked, so whatever WPAD or a PAC script would answer
  for the URL, the registry's proxy is used.
\<close>

theorem registry_outranks_system_resolver:
  assumes "trim override_url = []" and "from_env sys = None" and "registry_proxy sys = Some p"
  shows "detect_for (sys\<lparr>powershell := ps\<rparr>) slot override_url target =
         no_proxy_info\<lparr>pi_url := normalise p, pi_source := ''Windows settings''\<rparr>"
proof -
  have env: "from_env (sys\<lparr>powershell := ps\<rparr>) = from_env sys"
  proof -
    have "first_env (sys\<lparr>powershell := ps\<rparr>) ks = first_env sys ks" for ks
      by (induction ks) (auto split: option.splits)
    then show ?thesis unfolding from_env_def .
  qed
  have reg: "reg_value (sys\<lparr>powershell := ps\<rparr>) = reg_value sys"
    by (auto simp: reg_value_def fun_eq_iff)
  show ?thesis
    using assms by (auto simp: detect_for_def last_good_def detect_def env reg registry_proxy_def Let_def
        split: option.splits if_splits)
qed

definition managed_pc :: sysenv where
  "managed_pc =
     \<lparr>env_var = (\<lambda>_. None),
      reg_query = (\<lambda>name.
        if name = ''ProxyEnable'' then Some (True, ''    ProxyEnable    REG_DWORD    0x1'')
        else if name = ''ProxyServer'' then Some (True, ''    ProxyServer    REG_SZ    old.corp:8080'')
        else Some (False, [])),
      powershell = (\<lambda>_. Some ''http://pac.corp:3128/'')\<rparr>"

theorem registry_outranks_system_resolver_witness:
  "pi_url (detect_for managed_pc [] [] ''https://tunnel.example.com/config'') = ''http://old.corp:8080'' \<and>
   system_proxy_for managed_pc ''https://tunnel.example.com/config'' = Some ''http://pac.corp:3128/''"
proof -
  have "from_env managed_pc = None" by (simp add: from_env_def managed_pc_def)
  moreover have "registry_proxy managed_pc = Some ''old.corp:8080''" by code_simp
  moreover have "managed_pc\<lparr>powershell := powershell managed_pc\<rparr> = managed_pc"
    by (simp add: managed_pc_def)
  ultimately have "pi_url (detect_for managed_pc [] [] ''https://tunnel.example.com/config'') =
      normalise ''old.corp:8080''"
    using registry_outranks_system_resolver
      [of "[]" managed_pc "''old.corp:8080''" "powershell managed_pc"] by simp
  moreover have "normalise ''old.corp:8080'' = ''http://old.corp:8080''" by code_simp
  moreover have "system_proxy_for managed_pc ''https://tunnel.example.com/config'' =
      Some ''http://pac.corp:3128/''" by code_simp
  ultimately show ?thesis by simp
qed

section \<open>The guard in front of PowerShell\<close>

lemma url_char_no_quote: "url_char c \<Longrightarrow> c \<noteq> CHR 0x27"
  by (auto simp: url_char_def)

text \<open>
  (C23) No target can break out of the script. Of every script that is handed to PowerShell, whatever
  comes back, the target has at most 300 characters, all of them URL characters, and the script has no
  quotes but the two around the target: cut at the quotes it is the target between the two halves
  of the script for an empty one.
\<close>

theorem system_proxy_script_safe:
  assumes "script \<in> set (fst (system_proxy_run sys target))"
  shows "length target \<le> 300 \<and> list_all url_char target \<and>
         (\<exists>before after. split_on (CHR 0x27) (proxy_script []) = [before, [], after] \<and>
            split_on (CHR 0x27) script = [before, target, after])"
proof -
  have ok: "length target \<le> 300" "list_all url_char target" "script = proxy_script target"
    using assms by (auto simp: system_proxy_run_def Let_def split: if_splits)
  then have "CHR 0x27 \<notin> set target"
    using url_char_no_quote by (auto simp: list_all_iff)
  then have "split_on (CHR 0x27) script =
    [''$u=[Uri]'', target, ''; $p=[System.Net.WebRequest]::GetSystemWebProxy().GetProxy($u); if ($p -ne $null -and $p.AbsoluteUri -ne $u.AbsoluteUri) { $p.AbsoluteUri }'']"
    unfolding ok(3) by (simp add: proxy_script_def)
  with ok(1,2) show ?thesis by (simp add: proxy_script_def)
qed

theorem system_proxy_script_safe_witness:
  "\<exists>before after. split_on (CHR 0x27) (proxy_script ''https://tunnel.example.com/config'') =
     [before, ''https://tunnel.example.com/config'', after]"
proof -
  have "proxy_script ''https://tunnel.example.com/config'' \<in>
      set (fst (system_proxy_run managed_pc ''https://tunnel.example.com/config''))" by code_simp
  then show ?thesis using system_proxy_script_safe by blast
qed

section \<open>Normal form and scheme selection\<close>

lemma ws_all_not_graphic: "list_all (list_all (\<lambda>c. \<not> graphic c)) ws_encodings"
  by code_simp

lemma starts_with_append_graphic:
  "starts_with (a @ b) p \<Longrightarrow> \<forall>c \<in> set p. \<not> graphic c \<Longrightarrow> b = [] \<or> graphic (hd b) \<Longrightarrow>
   starts_with a p"
proof (induction p arbitrary: a)
  case (Cons c p)
  then show ?case by (cases a; cases b) auto
qed simp

lemma strip_one_append_graphic:
  assumes "\<forall>p \<in> set ps. \<forall>c \<in> set p. \<not> graphic c" and "b = [] \<or> graphic (hd b)"
  shows "strip_one ps (a @ b) = None \<longleftrightarrow> strip_one ps a = None"
proof -
  have "starts_with (a @ b) p = starts_with a p" if "p \<in> set ps" for p
    using assms that starts_with_append_graphic [of a b p] starts_with_trans_append [of a p b]
    by blast
  then show ?thesis by (auto simp: strip_one_def find_None_iff)
qed

lemma trim_graphic_prefix:
  assumes "a \<noteq> []" "graphic (hd a)" "graphic (last a)" "trim t = t"
  shows "trim (a @ t) = a @ t"
proof -
  have "trim_end t = t"
  proof -
    obtain r where "t = trim_end t @ r"
      using strip_many_end_prefix [of t ws_encodings] by (auto simp: trim_end_def)
    moreover obtain r' where "trim_end t = r' @ trim t"
      using strip_many_suffix [of "trim_end t" ws_encodings] by (auto simp: trim_def trim_start_def)
    ultimately have "t = r' @ t @ r" using assms(4) by simp
    then have "length t = length (r' @ t @ r)" by (rule arg_cong)
    then have "r = []" by simp
    with \<open>t = trim_end t @ r\<close> show ?thesis by simp
  qed
  then have "strip_one (map rev ws_encodings) (rev t) = None"
    by (metis rev_rev_ident strip_many_done strip_many_end_def trim_end_def)
  then have "strip_one (map rev ws_encodings) (rev (a @ t)) = None"
    using assms(1,3) ws_all_not_graphic
    by (simp add: strip_one_append_graphic list_all_iff hd_rev)
  then have "trim_end (a @ t) = a @ t"
    by (simp add: trim_end_def strip_many_end_def strip_many_stuck)
  then show ?thesis
    using assms(1,2) by (simp add: trim_def trim_start_graphic)
qed

lemma normalise_trim: "trim (normalise v) = normalise v"
proof -
  have "trim (''http://'' @ trim v) = ''http://'' @ trim v"
    by (rule trim_graphic_prefix) (simp_all add: graphic_def)
  then show ?thesis by (simp add: normalise_def Let_def)
qed

lemma normalise_idem: "normalise (normalise v) = normalise v"
  using normalise_trim [of v] by (subst normalise_def) (simp add: normalise_def Let_def)

lemma detect_for_normalised:
  "pi_url (detect_for sys slot override_url target) \<noteq> [] \<Longrightarrow>
   \<exists>v. pi_url (detect_for sys slot override_url target) = normalise v"
  by (auto simp: detect_for_def last_good_def detect_def no_proxy_info_def Let_def split: option.splits if_splits)

text \<open>
  A normalised proxy has a scheme, and normalising it again changes nothing, so a
  remembered or saved proxy can go through the code any number of times.
\<close>

theorem normalise_normal_form:
  "(starts_with (normalise v) ''http://'' \<or> starts_with (normalise v) ''https://'' \<or>
    starts_with (normalise v) ''socks5://'') \<and> normalise (normalise v) = normalise v"
  using normalise_idem by (simp add: normalise_def Let_def)

definition entry_ok :: "string \<times> string \<Rightarrow> bool" where
  "entry_ok kv \<longleftrightarrow>
     snd kv \<noteq> [] \<and> (\<forall>c \<in> set (fst kv) \<union> set (snd kv). graphic c \<and> c \<noteq> CHR '';'') \<and>
     CHR ''='' \<notin> set (fst kv)"

definition entry_text :: "string \<times> string \<Rightarrow> string" where
  "entry_text kv = fst kv @ ''='' @ snd kv"

definition scheme_is :: "string \<Rightarrow> string \<times> string \<Rightarrow> bool" where
  "scheme_is k kv \<longleftrightarrow> to_ascii_lowercase (fst kv) = k"

lemma pick_scheme_loop_entry:
  assumes "entry_ok kv"
  shows "pick_scheme_loop http (entry_text kv # parts) =
    (if scheme_is ''https'' kv then Some (snd kv)
     else pick_scheme_loop (if scheme_is ''http'' kv then Some (snd kv) else http) parts)"
proof -
  have "trim (fst kv) = fst kv" "trim (snd kv) = snd kv" "CHR ''='' \<notin> set (fst kv)" "snd kv \<noteq> []"
    using assms by (auto simp: entry_ok_def intro!: trim_all_graphic)
  then show ?thesis by (cases kv) (simp add: entry_text_def scheme_is_def Let_def)
qed

lemma pick_scheme_loop_entries:
  assumes "\<forall>kv \<in> set kvs. entry_ok kv"
  shows "pick_scheme_loop http (map entry_text kvs) =
    (case find (scheme_is ''https'') kvs of
       Some kv \<Rightarrow> Some (snd kv)
     | None \<Rightarrow> (case find (scheme_is ''http'') (rev kvs) of Some kv \<Rightarrow> Some (snd kv) | None \<Rightarrow> http))"
  using assms
  by (induction kvs arbitrary: http)
     (auto simp: pick_scheme_loop_entry find_append simp del: pick_scheme_loop.simps(2)
        split: option.splits)

text \<open>
  From a registry value of several entries \<^verbatim>\<open>scheme=host:port\<close> the https entry is taken,
  whatever the letter case of its scheme and wherever it stands; without one, the last http
  entry; without that, none.
\<close>

theorem pick_scheme_prefers_https:
  assumes "kvs \<noteq> []" and "\<forall>kv \<in> set kvs. entry_ok kv"
  shows "pick_scheme (join '';'' (map entry_text kvs)) =
    (case find (scheme_is ''https'') kvs of
       Some kv \<Rightarrow> Some (snd kv)
     | None \<Rightarrow> map_option snd (find (scheme_is ''http'') (rev kvs)))"
proof -
  let ?raw = "join '';'' (map entry_text kvs)"
  have ok: "\<forall>x \<in> set (map entry_text kvs). \<forall>c \<in> set x. graphic c \<and> c \<noteq> CHR '';''"
    using assms(2) by (auto simp: entry_ok_def entry_text_def graphic_def)
  have "graphic (CHR '';'')" by (simp add: graphic_def)
  then have "\<forall>c \<in> set (join '';'' xs). graphic c" if "\<forall>x \<in> set xs. \<forall>c \<in> set x. graphic c" for xs
    using that by (auto dest!: set_join)
  then have "trim ?raw = ?raw" using ok by (intro trim_all_graphic) blast
  moreover have "CHR ''='' \<in> set ?raw"
    using assms(1) by (cases kvs; cases "tl kvs") (auto simp: entry_text_def join_Cons)
  moreover have "split_on (CHR '';'') ?raw = map entry_text kvs"
    using assms(1) ok by (intro split_on_join) auto
  moreover have "?raw \<noteq> []" using \<open>CHR ''='' \<in> set ?raw\<close> by auto
  ultimately have "pick_scheme ?raw = pick_scheme_loop None (map entry_text kvs)"
    by (simp add: pick_scheme_def Let_def)
  then show ?thesis
    by (simp add: pick_scheme_loop_entries [OF assms(2), of None] split: option.split)
qed

theorem pick_scheme_prefers_https_witness:
  "pick_scheme (join '';'' (map entry_text [(''http'', ''a:1''), (''HTTPS'', ''b:2'')])) = Some ''b:2''"
proof -
  have "find (scheme_is ''https'') [(''http'', ''a:1''), (''HTTPS'', ''b:2'')] = Some (''HTTPS'', ''b:2'')"
    by code_simp
  then show ?thesis
    by (subst pick_scheme_prefers_https) (simp_all add: entry_ok_def graphic_def)
qed

end
