(* ===== verification/Auth.thy ===== *)
theory Auth
  imports Net Config Encoding Json_Value
begin

text \<open>
  The sign-in of \<^verbatim>\<open>auth.rs\<close>: the tokens and their store, the device flow, the authorization-code flow
  with PKCE and its loopback listener, and the refresh. The network, the clock, the random bytes,
  the hash and the JSON parser are arguments. Clock arithmetic is on \<^verbatim>\<open>u64\<close> and wraps, as it does in
  a release build.
\<close>

section \<open>Tokens\<close>

record device_prompt =
  dp_user_code :: string
  dp_verification_uri :: string
  dp_verification_uri_complete :: string
  dp_expires_in :: u64
  dp_device_code :: string
  dp_interval :: u64

record tokens =
  tok_access :: string
  tok_id :: string
  tok_refresh :: string
  tok_expires_at :: u64
  tok_email :: string

definition tokens_is_expired :: "u64 \<Rightarrow> tokens \<Rightarrow> bool" where
  "tokens_is_expired now t \<longleftrightarrow> tok_expires_at t \<le> now + 60"

definition tokens_path :: "path \<Rightarrow> path" where
  "tokens_path dir = path_join dir ''tokens.json''"

definition tokens_load ::
    "(string \<Rightarrow> tokens option) \<Rightarrow> io_env \<Rightarrow> path \<Rightarrow> store \<Rightarrow> tokens option" where
  "tokens_load de env dir st =
     (case read_to_string env (tokens_path dir) st of Err _ \<Rightarrow> None | Ok s \<Rightarrow> de s)"

definition tokens_save ::
    "(tokens \<Rightarrow> string result) \<Rightarrow> io_env \<Rightarrow> path \<Rightarrow> tokens \<Rightarrow> store \<Rightarrow> unit result \<times> store" where
  "tokens_save ser env dir t st =
     (case create_dir_all env dir of
        Err e \<Rightarrow> (Err e, st)
      | Ok _ \<Rightarrow>
          (case ser t of
             Err e \<Rightarrow> (Err e, st)
           | Ok body \<Rightarrow> write_file env (tokens_path dir) body st))"

definition tokens_forget :: "io_env \<Rightarrow> path \<Rightarrow> store \<Rightarrow> store" where
  "tokens_forget env dir st = remove_file env (tokens_path dir) st"

text \<open>Reading a claim of a JWT, unverified; \<open>parse\<close> is \<^verbatim>\<open>serde_json::from_slice\<close>.\<close>

definition jwt_claim :: "(u8 list \<Rightarrow> json option) \<Rightarrow> string \<Rightarrow> string \<Rightarrow> string" where
  "jwt_claim parse token claim =
     (case split_on (CHR ''.'') token of
        _ # payload # _ \<Rightarrow>
          (case base64_decode (jwt_base64 payload) of
             None \<Rightarrow> []
           | Some bytes \<Rightarrow> unwrap_or [] (Option.bind (parse bytes) (get_str claim)))
      | _ \<Rightarrow> [])"

definition into_tokens :: "(u8 list \<Rightarrow> json option) \<Rightarrow> u64 \<Rightarrow> json \<Rightarrow> tokens" where
  "into_tokens parse now v =
     \<lparr>tok_access = str_field v ''access_token'', tok_id = str_field v ''id_token'',
      tok_refresh = str_field v ''refresh_token'',
      tok_expires_at = now + unwrap_or 3600 (get_u64 ''expires_in'' v),
      tok_email = jwt_claim parse (str_field v ''id_token'') ''email''\<rparr>"

section \<open>Requests\<close>

type_synonym form = "(string \<times> string) list"
type_synonym post = "string \<Rightarrow> form \<Rightarrow> http_result"

definition post_form :: "post \<Rightarrow> string \<Rightarrow> form \<Rightarrow> json result" where
  "post_form post url form =
     (case post url form of
        Inr r \<Rightarrow> (case resp_json r of Ok v \<Rightarrow> Ok v | Err e \<Rightarrow> Err (''bad response: '' @ e))
      | Inl (StatusError r) \<Rightarrow>
          (case resp_json r of Ok v \<Rightarrow> Ok v | Err e \<Rightarrow> Err (''bad error response: '' @ e))
      | Inl (TransportError e) \<Rightarrow> Err (''network error: '' @ e))"

definition describe_base :: "string \<Rightarrow> string" where
  "describe_base err =
     (if err = ''access_denied''
      then ''sign-in was refused '' @ em_dash @ '' the account may lack tunnel access''
      else if err = ''expired_token''
      then ''the sign-in code expired '' @ em_dash @ '' try again''
      else if err = ''invalid_client''
      then ''the client id is wrong, or the app is not configured for the device flow''
      else if err = ''invalid_grant''
      then ''the session is no longer valid '' @ em_dash @ '' sign in again''
      else if err = ''invalid_target''
      then ''the API resource is not registered with the identity provider''
      else if err = ''invalid_scope''
      then ''the requested permission does not exist on the identity provider''
      else ''sign-in failed ('' @ err @ '')'')"

definition describe :: "string \<Rightarrow> json \<Rightarrow> string" where
  "describe err v =
     (let detail = str_field v ''error_description''
      in if detail = [] then describe_base err else describe_base err @ '': '' @ detail)"

definition resource_param :: "oidc \<Rightarrow> form" where
  "resource_param s =
     (if trim (oidc_resource s) \<noteq> [] then [(''resource'', trim (oidc_resource s))] else [])"

section \<open>The device flow\<close>

definition begin_device :: "post \<Rightarrow> oidc \<Rightarrow> device_prompt result" where
  "begin_device post s =
     (if \<not> oidc_is_complete s then Err ''Sign-in is not configured (issuer and client id).''
      else
        case post_form post (device_endpoint s)
               ([(''client_id'', oidc_client_id s), (''scope'', requested_scopes s)] @
                resource_param s) of
          Err e \<Rightarrow> Err e
        | Ok v \<Rightarrow>
            (case get_str ''error'' v of
               Some err \<Rightarrow> Err (describe err v)
             | None \<Rightarrow>
                 if str_field v ''device_code'' = [] then Err ''provider returned no device code''
                 else Ok
                   \<lparr>dp_user_code = str_field v ''user_code'',
                    dp_verification_uri = str_field v ''verification_uri'',
                    dp_verification_uri_complete =
                      (if str_field v ''verification_uri_complete'' = []
                       then str_field v ''verification_uri''
                       else str_field v ''verification_uri_complete''),
                    dp_expires_in = unwrap_or 600 (get_u64 ''expires_in'' v),
                    dp_device_code = str_field v ''device_code'',
                    dp_interval = max (unwrap_or 5 (get_u64 ''interval'' v)) 1\<rparr>))"

text \<open>
  What a poll meets: the clock at the start and at the \<open>k\<close>-th test of its loop, whether it is cancelled
  in second \<open>i\<close> of round \<open>k\<close>, the reply in round \<open>k\<close>, and the clock when tokens are made.
\<close>

record poll_env =
  pe_start :: u64
  pe_now :: "nat \<Rightarrow> u64"
  pe_cancelled :: "nat \<Rightarrow> nat \<Rightarrow> bool"
  pe_post :: "nat \<Rightarrow> post"
  pe_stamp :: "nat \<Rightarrow> u64"

definition poll_form :: "oidc \<Rightarrow> device_prompt \<Rightarrow> form" where
  "poll_form s p =
     [(''grant_type'', ''urn:ietf:params:oauth:grant-type:device_code''),
      (''device_code'', dp_device_code p), (''client_id'', oidc_client_id s)] @ resource_param s"

definition code_expired :: string where
  "code_expired = ''the sign-in code expired '' @ em_dash @ '' try again''"

definition sign_in_cancelled :: string where
  "sign_in_cancelled = ''sign-in cancelled''"

text \<open>
  The loop from round \<open>k\<close> on, with the waits in seconds that preceded the requests it makes; \<open>None\<close>
  when the fuel ends first.
\<close>

fun poll_loop ::
    "(u8 list \<Rightarrow> json option) \<Rightarrow> poll_env \<Rightarrow> oidc \<Rightarrow> device_prompt \<Rightarrow> u64 \<Rightarrow> nat \<Rightarrow> nat \<Rightarrow> u64 \<Rightarrow>
     (u64 list \<times> tokens result) option" where
  "poll_loop parse env s p deadline 0 k interval = None"
| "poll_loop parse env s p deadline (Suc fuel) k interval =
     (if pe_now env k < deadline then
        if list_ex (pe_cancelled env k) [0..<unat interval] then Some ([], Err sign_in_cancelled)
        else map_option (apfst ((#) interval))
          (case post_form (pe_post env k) (token_endpoint s) (poll_form s p) of
             Err e \<Rightarrow> Some ([], Err e)
           | Ok v \<Rightarrow>
               (case get_str ''error'' v of
                  None \<Rightarrow> Some ([], Ok (into_tokens parse (pe_stamp env k) v))
                | Some err \<Rightarrow>
                    if err = ''authorization_pending''
                    then poll_loop parse env s p deadline fuel (Suc k) interval
                    else if err = ''slow_down''
                    then poll_loop parse env s p deadline fuel (Suc k) (interval + 5)
                    else Some ([], Err (describe err v))))
      else Some ([], Err code_expired))"

definition poll ::
    "(u8 list \<Rightarrow> json option) \<Rightarrow> poll_env \<Rightarrow> oidc \<Rightarrow> device_prompt \<Rightarrow> nat \<Rightarrow>
     (u64 list \<times> tokens result) option" where
  "poll parse env s p fuel =
     poll_loop parse env s p (pe_start env + dp_expires_in p) fuel 0 (dp_interval p)"

section \<open>Refreshing\<close>

definition refresh_tokens ::
    "(u8 list \<Rightarrow> json option) \<Rightarrow> post \<Rightarrow> u64 \<Rightarrow> oidc \<Rightarrow> string \<Rightarrow> tokens result" where
  "refresh_tokens parse post now s refresh_token =
     (case post_form post (token_endpoint s)
             ([(''grant_type'', ''refresh_token''), (''refresh_token'', refresh_token),
               (''client_id'', oidc_client_id s)] @ resource_param s) of
        Err e \<Rightarrow> Err e
      | Ok v \<Rightarrow>
          (case get_str ''error'' v of
             Some err \<Rightarrow> Err (describe err v)
           | None \<Rightarrow>
               (let t = into_tokens parse now v
                in Ok (if tok_refresh t = [] then t\<lparr>tok_refresh := refresh_token\<rparr> else t))))"

section \<open>Authorization code and PKCE\<close>

record pkce =
  pk_verifier :: string
  pk_challenge :: string
  pk_state :: string

text \<open>The random bytes of the two draws and SHA-256 are arguments.\<close>

definition random_b64 :: "u8 list \<Rightarrow> string" where
  "random_b64 drawn = b64url drawn"

definition make_pkce :: "(string \<Rightarrow> u8 list) \<Rightarrow> u8 list \<Rightarrow> u8 list \<Rightarrow> pkce" where
  "make_pkce sha random48 random16 =
     (let verifier = random_b64 random48 in
      \<lparr>pk_verifier = verifier, pk_challenge = b64url (sha verifier), pk_state = random_b64 random16\<rparr>)"

definition authorize_url :: "oidc \<Rightarrow> string \<Rightarrow> pkce \<Rightarrow> string" where
  "authorize_url s redirect p =
     trim_end_matches ''/'' (oidc_issuer s) @ ''/auth?client_id='' @ percent (oidc_client_id s) @
     ''&response_type=code&redirect_uri='' @ percent redirect @
     ''&scope='' @ percent (requested_scopes s) @
     ''&code_challenge='' @ percent (pk_challenge p) @
     ''&code_challenge_method=S256&state='' @ percent (pk_state p) @
     (if trim (oidc_resource s) \<noteq> [] then ''&resource='' @ percent (trim (oidc_resource s)) else []) @
     (if contains (requested_scopes s) ''offline_access'' then ''&prompt=consent'' else [])"

definition exchange_code ::
    "(u8 list \<Rightarrow> json option) \<Rightarrow> post \<Rightarrow> u64 \<Rightarrow> oidc \<Rightarrow> string \<Rightarrow> string \<Rightarrow> string \<Rightarrow> tokens result" where
  "exchange_code parse post now s redirect code verifier =
     (case post_form post (token_endpoint s)
             ([(''grant_type'', ''authorization_code''), (''code'', code),
               (''redirect_uri'', redirect), (''client_id'', oidc_client_id s),
               (''code_verifier'', verifier)] @ resource_param s) of
        Err e \<Rightarrow> Err e
      | Ok v \<Rightarrow>
          (case get_str ''error'' v of
             Some err \<Rightarrow> Err (describe err v)
           | None \<Rightarrow> Ok (into_tokens parse now v)))"

section \<open>The loopback listener\<close>

record callback =
  cb_code :: string
  cb_state :: string
  cb_err :: string
  cb_err_desc :: string

definition no_callback :: callback where
  "no_callback = \<lparr>cb_code = [], cb_state = [], cb_err = [], cb_err_desc = []\<rparr>"

text \<open>\<^verbatim>\<open>lines().next()\<close>, \<^verbatim>\<open>split_whitespace().nth(1)\<close>, and what follows the question mark.\<close>

definition request_query :: "string \<Rightarrow> string" where
  "request_query req =
     (let target = (case lines req of [] \<Rightarrow> [] | l # _ \<Rightarrow> (case words l of _ # t # _ \<Rightarrow> t | _ \<Rightarrow> []))
      in case split_once (CHR ''?'') target of None \<Rightarrow> [] | Some (_, q) \<Rightarrow> q)"

text \<open>One pair of the query; \<open>None\<close> is the panic of \<^verbatim>\<open>percent_decode\<close>.\<close>

definition query_pair :: "string \<Rightarrow> (string \<times> string) option" where
  "query_pair pair =
     (let (k, v) = (case split_once (CHR ''='') pair of None \<Rightarrow> (pair, []) | Some kv \<Rightarrow> kv)
      in map_option (Pair k) (percent_decode (replace_char (CHR ''+'') '' '' v)))"

definition set_param :: "string \<times> string \<Rightarrow> callback \<Rightarrow> callback" where
  "set_param = (\<lambda>(k, v) cb.
     if k = ''code'' then cb\<lparr>cb_code := v\<rparr>
     else if k = ''state'' then cb\<lparr>cb_state := v\<rparr>
     else if k = ''error'' then cb\<lparr>cb_err := v\<rparr>
     else if k = ''error_description'' then cb\<lparr>cb_err_desc := v\<rparr>
     else cb)"

fun read_params :: "string list \<Rightarrow> callback \<Rightarrow> callback option" where
  "read_params [] cb = Some cb"
| "read_params (pair # ps) cb =
     (case query_pair pair of None \<Rightarrow> None | Some kv \<Rightarrow> read_params ps (set_param kv cb))"

definition callback_ok :: "string \<Rightarrow> callback \<Rightarrow> bool" where
  "callback_ok expect cb \<longleftrightarrow> cb_err cb = [] \<and> cb_code cb \<noteq> [] \<and> cb_state cb = expect"

definition crlf :: string where
  "crlf = [cr, nl]"

definition callback_page :: "bool \<Rightarrow> string" where
  "callback_page ok =
     (let body = (if ok
        then ''<h2>Signed in</h2><p>You can close this tab and return to SplitStream.</p>''
        else ''<h2>Sign-in failed</h2><p>Return to SplitStream for the reason.</p>'')
      in ''HTTP/1.1 200 OK'' @ crlf @ ''Content-Type: text/html; charset=utf-8'' @ crlf @
         ''Content-Length: '' @ show_nat (length body) @ crlf @ ''Connection: close'' @ crlf @ crlf @
         body)"

definition callback_result :: "string \<Rightarrow> callback \<Rightarrow> string result" where
  "callback_result expect cb =
     (if cb_err cb \<noteq> [] then
        Err (if cb_err_desc cb = [] then ''the identity provider refused: '' @ cb_err cb
             else ''the identity provider refused: '' @ cb_err cb @ '' '' @ em_dash @ '' '' @ cb_err_desc cb)
      else if cb_code cb = [] then Err ''the browser came back without an authorization code''
      else if cb_state cb \<noteq> expect
      then Err (''sign-in state mismatch '' @ em_dash @ '' the reply did not match the request'')
      else Ok (cb_code cb))"

text \<open>
  One request: the bytes of the first read (at most 4096, none if it failed), the page sent back and
  the result; \<open>None\<close> when decoding panics.
\<close>

definition handle_request :: "string \<Rightarrow> string \<Rightarrow> (string \<times> string result) option" where
  "handle_request expect bytes =
     map_option (\<lambda>cb. (callback_page (callback_ok expect cb), callback_result expect cb))
       (read_params (split_on (CHR ''&'') (request_query (from_utf8_lossy (take 4096 bytes))))
          no_callback)"

datatype accept = Accepted string | WouldBlock | AcceptFails string

record listen_env =
  le_bind :: "unit result"
  le_nonblocking :: "unit result"
  le_start :: u64
  le_now :: "nat \<Rightarrow> u64"
  le_cancelled :: "nat \<Rightarrow> bool"
  le_accept :: "nat \<Rightarrow> accept"

datatype outcome = Returned "string result" | Panicked

fun await_loop :: "listen_env \<Rightarrow> string \<Rightarrow> u64 \<Rightarrow> nat \<Rightarrow> nat \<Rightarrow> outcome option" where
  "await_loop env expect deadline 0 k = None"
| "await_loop env expect deadline (Suc fuel) k =
     (if le_now env k < deadline then
        if le_cancelled env k then Some (Returned (Err sign_in_cancelled))
        else
          case le_accept env k of
            Accepted bytes \<Rightarrow>
              (case handle_request expect bytes of
                 None \<Rightarrow> Some Panicked
               | Some (_, r) \<Rightarrow> Some (Returned r))
          | WouldBlock \<Rightarrow> await_loop env expect deadline fuel (Suc k)
          | AcceptFails e \<Rightarrow> Some (Returned (Err (''sign-in listener failed: '' @ e)))
      else Some (Returned (Err ''timed out waiting for the browser sign-in'')))"

definition await_code :: "listen_env \<Rightarrow> u16 \<Rightarrow> string \<Rightarrow> u64 \<Rightarrow> nat \<Rightarrow> outcome option" where
  "await_code env port expect timeout_secs fuel =
     (case le_bind env of
        Err e \<Rightarrow>
          Some (Returned (Err (''cannot listen on 127.0.0.1:'' @ show_word port @
            '' for the sign-in reply: '' @ e)))
      | Ok _ \<Rightarrow>
          (case le_nonblocking env of
             Err e \<Rightarrow> Some (Returned (Err (''cannot configure the sign-in listener: '' @ e)))
           | Ok _ \<Rightarrow> await_loop env expect (le_start env + timeout_secs) fuel 0))"

section \<open>Facts about the listener\<close>

lemma query_pair_percent:
  "CHR ''='' \<notin> set k \<Longrightarrow> valid_utf8 v \<Longrightarrow> query_pair (k @ ''='' @ percent v) = Some (k, v)"
  by (simp add: query_pair_def replace_char_absent percent_no unreserved_def pct.dec_enc)

lemma read_params_source:
  "read_params ps cb = Some cb' \<Longrightarrow>
   (cb_state cb' = cb_state cb \<or> (\<exists>p \<in> set ps. query_pair p = Some (''state'', cb_state cb'))) \<and>
   (cb_code cb' = cb_code cb \<or> (\<exists>p \<in> set ps. query_pair p = Some (''code'', cb_code cb')))"
proof (induction ps arbitrary: cb)
  case (Cons p ps)
  then obtain k v where kv: "query_pair p = Some (k, v)" "read_params ps (set_param (k, v) cb) = Some cb'"
    by (auto split: option.splits)
  show ?case using Cons.IH [OF kv(2)] kv(1)
    by (auto simp: set_param_def split: if_splits)
qed simp

lemma callback_result_Ok:
  "callback_result expect cb = Ok c \<Longrightarrow>
   callback_ok expect cb \<and> c = cb_code cb"
  by (simp add: callback_result_def callback_ok_def split: if_splits)

lemma handle_request_Ok:
  assumes "handle_request expect bytes = Some (page, Ok c)" and "expect \<noteq> []"
  shows "c \<noteq> [] \<and> page = callback_page True \<and>
         (\<exists>p \<in> set (split_on (CHR ''&'') (request_query (from_utf8_lossy (take 4096 bytes)))).
            query_pair p = Some (''state'', expect)) \<and>
         (\<exists>p \<in> set (split_on (CHR ''&'') (request_query (from_utf8_lossy (take 4096 bytes)))).
            query_pair p = Some (''code'', c))"
proof -
  obtain cb where cb: "read_params (split_on (CHR ''&'')
      (request_query (from_utf8_lossy (take 4096 bytes)))) no_callback = Some cb"
    "page = callback_page (callback_ok expect cb)" "callback_result expect cb = Ok c"
    using assms(1) by (auto simp: handle_request_def)
  with callback_result_Ok [OF cb(3)] read_params_source [OF cb(1)] assms(2) show ?thesis
    by (auto simp: callback_ok_def no_callback_def)
qed

lemma await_loop_Ok:
  "await_loop env expect deadline fuel k = Some (Returned (Ok c)) \<Longrightarrow>
   \<exists>j bytes page. le_accept env j = Accepted bytes \<and> handle_request expect bytes = Some (page, Ok c)"
  by (induction env expect deadline fuel k rule: await_loop.induct)
    (auto split: if_splits accept.splits option.splits)

lemma request_query_line:
  assumes "\<forall>c \<in> set q. graphic c"
  shows "request_query (''GET /callback?'' @ q @ '' HTTP/1.1'' @ crlf @ rest) = q"
proof -
  let ?t = "''/callback?'' @ q"
  let ?l = "''GET '' @ ?t @ '' HTTP/1.1'' @ [cr]"
  have "nl \<notin> set ?l" using assms by (auto simp: nl_def cr_def graphic_def)
  then have first: "lines (?l @ nl # rest) = strip_cr ?l # lines rest" by (rule lines_first)
  have "''GET /callback?'' @ q @ '' HTTP/1.1'' @ crlf @ rest = ?l @ nl # rest"
    by (simp add: crlf_def)
  then have "lines (''GET /callback?'' @ q @ '' HTTP/1.1'' @ crlf @ rest) = strip_cr ?l # lines rest"
    by (simp only: first)
  moreover have "strip_cr ?l = ''GET'' @ '' '' @ ?t @ '' HTTP/1.1''"
    by (simp add: strip_cr_def butlast_append)
  moreover have "words (''GET'' @ '' '' @ ?t @ '' HTTP/1.1'') = ''GET'' # words (?t @ '' HTTP/1.1'')"
    using words_graphic [of "''GET''" "'' '' @ ?t @ '' HTTP/1.1''"] by (simp add: graphic_def)
  moreover have "words (?t @ '' HTTP/1.1'') = ?t # words '' HTTP/1.1''"
    using assms by (intro words_graphic) (auto simp: graphic_def)
  moreover have "split_once (CHR ''?'') ?t = Some (''/callback'', q)"
    using split_once_append [of "CHR ''?''" "''/callback''" q] by simp
  ultimately show ?thesis by (simp add: request_query_def)
qed

lemma percent_graphic: "x \<in> set (percent s) \<Longrightarrow> graphic x"
  using percent_chars [of x s] unreserved_graphic [of x] by (auto simp: graphic_def)

lemma char_boundary_loop:
  "\<forall>c \<in> set s. ascii c \<Longrightarrow> percent_decode_loop s i out \<noteq> None"
proof (induction s i out rule: percent_decode_loop.induct)
  case (1 s i out)
  have "char_boundary s j" if "j \<le> length s" for j
    using char_boundary_ascii [OF "1.prems" that] .
  then show ?case using 1
    by (subst percent_decode_loop.simps) (simp split: option.split)
qed

lemma split_on_set: "p \<in> set (split_on c s) \<Longrightarrow> x \<in> set p \<Longrightarrow> x \<in> set s"
  by (induction c s arbitrary: p rule: split_on.induct) (fastforce split: list.splits if_splits)+

lemma split_once_part: "split_once c s = Some (a, b) \<Longrightarrow> x \<in> set a \<union> set b \<Longrightarrow> x \<in> set s"
  by (drule split_once_SomeD) auto

lemma query_pair_ascii:
  assumes "\<forall>c \<in> set p. ascii c"
  shows "query_pair p \<noteq> None"
proof -
  obtain k v where kv: "(case split_once (CHR ''='') p of None \<Rightarrow> (p, []) | Some kv \<Rightarrow> kv) = (k, v)"
    by fastforce
  then have "set v \<subseteq> set p"
    by (cases "split_once (CHR ''='') p") (auto dest: split_once_part)
  then have "\<forall>c \<in> set v. ascii c" using assms by blast
  then have "\<forall>c \<in> set (replace_char (CHR ''+'') '' '' v). ascii c"
    by (auto simp: replace_char_single ascii_def)
  then show ?thesis
    using char_boundary_loop kv by (simp add: query_pair_def percent_decode_def)
qed

lemma read_params_ascii:
  "\<forall>p \<in> set ps. \<forall>c \<in> set p. ascii c \<Longrightarrow> read_params ps cb \<noteq> None"
proof (induction ps arbitrary: cb)
  case (Cons p ps)
  then show ?case using query_pair_ascii [of p] by (auto split: option.split)
qed simp

lemma strip_cr_set: "x \<in> set (strip_cr l) \<Longrightarrow> x \<in> set l"
  by (auto simp: strip_cr_def dest: in_set_butlastD split: if_splits)

lemma lines_set: "l \<in> set (lines s) \<Longrightarrow> x \<in> set l \<Longrightarrow> x \<in> set s"
  by (auto simp: lines_def Let_def dest!: strip_cr_set in_set_butlastD
      intro: split_on_set split: if_splits)
    (metis last_in_set split_on_not_Nil split_on_set)

lemma until_ws_set: "x \<in> set (until_ws s) \<Longrightarrow> x \<in> set s"
  by (induction s) (auto split: if_splits)

lemma trim_start_set: "x \<in> set (trim_start s) \<Longrightarrow> x \<in> set s"
  by (metis Un_iff set_append strip_many_suffix trim_start_def)

lemma words_set: "w \<in> set (words s) \<Longrightarrow> x \<in> set w \<Longrightarrow> x \<in> set s"
proof (induction s arbitrary: w rule: words.induct)
  case (1 s)
  show ?case
  proof (cases "trim_start s = []")
    case False
    with "1.prems" have "w = until_ws (trim_start s) \<or>
        w \<in> set (words (drop (length (until_ws (trim_start s))) (trim_start s)))"
      by (subst (asm) words.simps) (simp add: Let_def)
    with "1.prems"(2) have "x \<in> set (trim_start s)"
      using "1.IH" [OF refl False] until_ws_set in_set_dropD by metis
    then show ?thesis by (rule trim_start_set)
  qed (use "1.prems" in \<open>simp add: words.simps [of s]\<close>)
qed

lemma request_query_set: "x \<in> set (request_query req) \<Longrightarrow> x \<in> set req"
proof -
  assume x: "x \<in> set (request_query req)"
  then obtain l ls w t ws a q where "lines req = l # ls" "words l = w # t # ws"
    "split_once (CHR ''?'') t = Some (a, q)" "x \<in> set q"
    by (auto simp: request_query_def Let_def split: list.splits option.splits
        dest: sym [of "Some _"])
  then have "x \<in> set t" "t \<in> set (words l)" "l \<in> set (lines req)"
    using split_once_part by auto
  then show ?thesis by (blast dest: words_set lines_set)
qed

section \<open>Facts about tokens and requests\<close>

lemma length_b64url: "length (b64url bytes) = (length bytes * 4 + 2) div 3"
  by (induction bytes rule: by3.induct) (simp_all add: b64url_chunk_simps)

definition authorize_params :: "oidc \<Rightarrow> string \<Rightarrow> pkce \<Rightarrow> form" where
  "authorize_params s redirect p =
     [(''client_id'', oidc_client_id s), (''response_type'', ''code''), (''redirect_uri'', redirect),
      (''scope'', requested_scopes s), (''code_challenge'', pk_challenge p),
      (''code_challenge_method'', ''S256''), (''state'', pk_state p)] @ resource_param s @
     (if contains (requested_scopes s) ''offline_access'' then [(''prompt'', ''consent'')] else [])"

definition query_of :: "form \<Rightarrow> string" where
  "query_of ps = join ''&'' (map (\<lambda>(k, v). k @ ''='' @ percent v) ps)"

lemma percent_unreserved: "\<forall>c \<in> set s. unreserved c \<Longrightarrow> percent s = s"
  by (induction s) (auto simp: percent_def percent_byte_def)

lemma percent_constants [simp]:
  "percent ''code'' = ''code''" "percent ''S256'' = ''S256''" "percent ''consent'' = ''consent''"
  by (rule percent_unreserved, simp add: unreserved_def)+

lemma authorize_url_query:
  "authorize_url s redirect p =
     trim_end_matches ''/'' (oidc_issuer s) @ ''/auth?'' @ query_of (authorize_params s redirect p)"
  by (simp add: authorize_url_def authorize_params_def query_of_def resource_param_def)

lemma query_of_parses:
  assumes "ps \<noteq> []" and "\<forall>(k, v) \<in> set ps. (\<forall>c \<in> set k. unreserved c) \<and> valid_utf8 v"
  shows "map query_pair (split_on (CHR ''&'') (query_of ps)) = map Some ps"
proof -
  let ?enc = "\<lambda>(k, v). k @ ''='' @ percent v"
  have "CHR ''&'' \<notin> set (?enc kv)" if "kv \<in> set ps" for kv
    using that assms(2) percent_no [of "CHR ''&''"] by (fastforce simp: unreserved_def)
  then have "split_on (CHR ''&'') (query_of ps) = map ?enc ps"
    unfolding query_of_def using assms(1) by (intro split_on_join) auto
  moreover have "query_pair (?enc kv) = Some kv" if "kv \<in> set ps" for kv
    using that assms(2) query_pair_percent by (fastforce simp: unreserved_def)
  ultimately show ?thesis by simp
qed

lemma trim_end_matches_set: "set (trim_end_matches p s) \<subseteq> set s"
  by (metis Un_upper1 set_append trim_end_matches_prefix)

lemma authorize_params_keys:
  "\<forall>(k, v) \<in> set (authorize_params s redirect p). \<forall>c \<in> set k. unreserved c"
proof -
  let ?keys = "[''client_id'', ''response_type'', ''redirect_uri'', ''scope'', ''code_challenge'',
    ''code_challenge_method'', ''state'', ''resource'', ''prompt'']"
  have "list_all (list_all unreserved) ?keys" by code_simp
  moreover have "fst ` set (authorize_params s redirect p) \<subseteq> set ?keys"
    by (auto simp: authorize_params_def resource_param_def)
  ultimately show ?thesis unfolding list_all_iff by force
qed

lemma b64url_no_dot: "CHR ''.'' \<notin> set (b64url bytes)"
proof -
  have "list_all (\<lambda>k. url_alphabet ! k \<noteq> CHR ''.'') [0..<64]" by code_simp
  then show ?thesis using sextet_less
    by (auto simp: b64url_def b64url_chunk_def list_all_iff Let_def)
qed

section \<open>Facts about polling\<close>

text \<open>How many of the first \<open>n\<close> replies, from round \<open>k\<close> on, asked to slow down.\<close>

definition slow_reply :: "poll_env \<Rightarrow> oidc \<Rightarrow> device_prompt \<Rightarrow> nat \<Rightarrow> bool" where
  "slow_reply env s p k =
     (case post_form (pe_post env k) (token_endpoint s) (poll_form s p) of
        Err _ \<Rightarrow> False | Ok v \<Rightarrow> get_str ''error'' v = Some ''slow_down'')"

fun slow_downs :: "poll_env \<Rightarrow> oidc \<Rightarrow> device_prompt \<Rightarrow> nat \<Rightarrow> nat \<Rightarrow> nat" where
  "slow_downs env s p k 0 = 0"
| "slow_downs env s p k (Suc n) =
     (if slow_reply env s p k then 1 else 0) + slow_downs env s p (Suc k) n"

lemma slow_downs_last:
  "slow_downs env s p k (Suc n) = slow_downs env s p k n + (if slow_reply env s p (k + n) then 1 else 0)"
proof (induction n arbitrary: k)
  case (Suc n)
  show ?case using Suc.IH [of "Suc k"] by (simp only: slow_downs.simps(2) [of env s p k] add_Suc_shift)
qed simp

text \<open>
  The seconds the loop waits in round \<open>k\<close>, and the law of the clock: it does not go back before the
  first test, and from a test that finds the code alive to the next one it advances by at least the
  seconds slept in between.
\<close>

definition round_wait :: "poll_env \<Rightarrow> oidc \<Rightarrow> device_prompt \<Rightarrow> nat \<Rightarrow> u64" where
  "round_wait env s p k = dp_interval p + 5 * of_nat (slow_downs env s p 0 k)"

definition clock_follows :: "poll_env \<Rightarrow> oidc \<Rightarrow> device_prompt \<Rightarrow> bool" where
  "clock_follows env s p \<longleftrightarrow>
     pe_start env \<le> pe_now env 0 \<and>
     (\<forall>k. pe_now env k < pe_start env + dp_expires_in p \<longrightarrow>
        unat (pe_now env k) + unat (round_wait env s p k) \<le> unat (pe_now env (Suc k)))"

lemma round_wait_Suc:
  "round_wait env s p (Suc k) = (if slow_reply env s p k then round_wait env s p k + 5 else round_wait env s p k)"
  by (simp add: round_wait_def slow_downs_last algebra_simps del: slow_downs.simps)

lemma poll_loop_clock:
  fixes env s p
  defines "deadline \<equiv> pe_start env + dp_expires_in p"
  assumes clock: "clock_follows env s p" and ends: "unat (pe_start env) + unat (dp_expires_in p) + 5 < 2 ^ 64"
  shows "(pe_now env k < deadline \<longrightarrow> 1 \<le> unat (round_wait env s p k) \<and> unat (pe_start env) + k \<le> unat (pe_now env k)) \<Longrightarrow>
    0 < fuel \<Longrightarrow> unat (dp_expires_in p) < k + fuel \<Longrightarrow>
    \<exists>ws r. poll_loop parse env s p deadline fuel k (round_wait env s p k) = Some (ws, r) \<and>
      (ws = [] \<or> k + length ws \<le> unat (dp_expires_in p) \<and>
         unat (pe_now env k) + sum_list (map unat (butlast ws)) < unat deadline)"
proof (induction fuel arbitrary: k)
  case (Suc fuel)
  have deadline: "unat deadline = unat (pe_start env) + unat (dp_expires_in p)"
    using ends by (simp add: deadline_def unat_word_ariths)
  show ?case
  proof (cases "pe_now env k < deadline")
    case False
    then show ?thesis by simp
  next
    case True
    let ?w = "round_wait env s p k"
    have k: "1 \<le> unat ?w" "unat (pe_start env) + k \<le> unat (pe_now env k)" "unat (pe_now env k) < unat deadline"
      using Suc.prems(1) True by (simp_all add: word_less_nat_alt)
    have now: "unat (pe_now env k) + unat ?w \<le> unat (pe_now env (Suc k))"
      using clock True by (simp add: clock_follows_def deadline_def)
    have wait: "1 \<le> unat (round_wait env s p (Suc k))" if "pe_now env (Suc k) < deadline"
    proof -
      have "unat ?w + 5 < 2 ^ 64" using that now deadline ends by (simp add: word_less_nat_alt)
      then show ?thesis using k(1) by (simp add: round_wait_Suc unat_word_ariths)
    qed
    have "\<exists>ws r. poll_loop parse env s p deadline fuel (Suc k) (round_wait env s p (Suc k)) = Some (ws, r) \<and>
      (ws = [] \<or> Suc k + length ws \<le> unat (dp_expires_in p) \<and>
         unat (pe_now env (Suc k)) + sum_list (map unat (butlast ws)) < unat deadline)"
      by (rule Suc.IH) (use wait k now deadline Suc.prems(3) in auto)
    then obtain ws r where rest: "poll_loop parse env s p deadline fuel (Suc k) (round_wait env s p (Suc k)) = Some (ws, r)"
      and bound: "?w # ws = [?w] \<or> Suc k + length ws \<le> unat (dp_expires_in p) \<and>
         unat (pe_now env (Suc k)) + sum_list (map unat (butlast ws)) < unat deadline" by auto
    have one: "k + length [?w] \<le> unat (dp_expires_in p) \<and>
        unat (pe_now env k) + sum_list (map unat (butlast [?w])) < unat deadline"
      using k deadline by simp
    have more: "k + length (?w # ws) \<le> unat (dp_expires_in p) \<and>
        unat (pe_now env k) + sum_list (map unat (butlast (?w # ws))) < unat deadline"
      using bound one now by auto
    show ?thesis
      using True rest one more round_wait_Suc [of env s p k]
      by (auto simp: slow_reply_def split: sum.split option.split)
  qed
qed simp

lemma poll_loop_waits:
  "poll_loop parse env s p deadline fuel k interval = Some (ws, r) \<Longrightarrow> i < length ws \<Longrightarrow>
   ws ! i = interval + 5 * of_nat (slow_downs env s p k i)"
proof (induction fuel arbitrary: k interval ws i)
  case (Suc fuel)
  note IH = Suc.IH
  have step: "ws = [] \<or> (\<exists>v. ws = interval # v \<and>
      (v = [] \<or> poll_loop parse env s p deadline fuel (Suc k)
         (if slow_reply env s p k then interval + 5 else interval) = Some (v, r)))"
    using Suc.prems(1)
    by (auto simp: slow_reply_def split: if_splits sum.splits option.splits)
  show ?case
  proof (cases i)
    case 0
    then show ?thesis using step Suc.prems(2) by auto
  next
    case (Suc j)
    then obtain v where "ws = interval # v" "poll_loop parse env s p deadline fuel (Suc k)
        (if slow_reply env s p k then interval + 5 else interval) = Some (v, r)"
      using step Suc.prems(2) by auto
    then show ?thesis using IH [of "Suc k" _ v j] Suc Suc.prems(2)
      by (simp add: algebra_simps split: if_splits)
  qed
qed simp

section \<open>Properties\<close>

text \<open>Settings and an environment for concrete runs.\<close>

definition sample_oidc :: oidc where
  "sample_oidc = \<lparr>oidc_issuer = ''https://id.example.com/oidc/'', oidc_client_id = ''app 1'',
     oidc_resource = ''https://api'', oidc_scope = ''tunnel:connect'', oidc_scopes = [],
     oidc_redirect_port = 51700\<rparr>"

definition sample_prompt :: device_prompt where
  "sample_prompt = \<lparr>dp_user_code = ''AB'', dp_verification_uri = ''u'',
     dp_verification_uri_complete = ''u'', dp_expires_in = 3, dp_device_code = ''d'', dp_interval = 1\<rparr>"

definition pending_env :: poll_env where
  "pending_env = \<lparr>pe_start = 100, pe_now = (\<lambda>k. 100 + of_nat k), pe_cancelled = (\<lambda>_ _. False),
     pe_post = (\<lambda>k _ _. Inl (StatusError (Response 400
        (Ok (JObj [(''error'', JStr (if k = 0 then ''slow_down'' else ''authorization_pending''))]))))),
     pe_stamp = (\<lambda>_. 100)\<rparr>"


text \<open>A provider that wants to be asked without a pause, and a clock that shows the sleeps.\<close>

definition hasty_provider :: post where
  "hasty_provider = (\<lambda>_ _. Inr (Response 200 (Ok (JObj
     [(''device_code'', JStr ''d''), (''expires_in'', JNum (PosInt 3)), (''interval'', JNum (PosInt 0))]))))"

definition timed_env :: poll_env where
  "timed_env = pending_env\<lparr>pe_now := (\<lambda>k. if k = 0 then 100 else if k = 1 then 101 else 107)\<rparr>"


text \<open>
  (C16) The poll obeys the provider's pace: before its \<open>i\<close>-th request it has waited the interval the
  prompt named, five seconds longer for every \<^verbatim>\<open>slow_down\<close> received before.
\<close>

theorem poll_obeys_slow_down:
  assumes "poll parse env s p fuel = Some (waits, r)" and "i < length waits"
  shows "waits ! i = dp_interval p + 5 * of_nat (slow_downs env s p 0 i)"
  using assms unfolding poll_def by (rule poll_loop_waits)

theorem poll_obeys_slow_down_witness:
  "[1, 6, 6] ! 1 = dp_interval sample_prompt + 5 * of_nat (slow_downs pending_env sample_oidc sample_prompt 0 1)"
  by (rule poll_obeys_slow_down
      [of "\<lambda>_. None" _ _ _ 4 _ "Err code_expired"]) code_simp+

text \<open>
  (C20) A refresh never loses the refresh token: the result carries the one the provider sent, and
  the one that was used when the provider sent none or an empty one.
\<close>

theorem refresh_keeps_token:
  assumes "refresh_tokens parse post now s old = Ok t"
  shows "\<exists>v. post_form post (token_endpoint s)
               ([(''grant_type'', ''refresh_token''), (''refresh_token'', old),
                 (''client_id'', oidc_client_id s)] @ resource_param s) = Ok v \<and>
           get_str ''error'' v = None \<and> tok_access t = str_field v ''access_token'' \<and>
           tok_refresh t = (if str_field v ''refresh_token'' = [] then old else str_field v ''refresh_token'')"
  using assms
  by (auto simp: refresh_tokens_def into_tokens_def Let_def split: sum.splits option.splits)

definition refresh_reply :: post where
  "refresh_reply = (\<lambda>_ _. Inr (Response 200 (Ok (JObj [(''access_token'', JStr ''at'')]))))"

theorem refresh_keeps_token_witness:
  "\<exists>t. refresh_tokens (\<lambda>_. None) refresh_reply 100 sample_oidc ''rt'' = Ok t \<and>
       tok_refresh t = ''rt''"
proof -
  let ?t = "\<lparr>tok_access = ''at'', tok_id = [], tok_refresh = ''rt'', tok_expires_at = 3700, tok_email = []\<rparr>"
  have ok: "refresh_tokens (\<lambda>_. None) refresh_reply 100 sample_oidc ''rt'' = Ok ?t" by code_simp
  from refresh_keeps_token [OF ok]
  obtain v where "post_form refresh_reply (token_endpoint sample_oidc)
      ([(''grant_type'', ''refresh_token''), (''refresh_token'', ''rt''),
        (''client_id'', oidc_client_id sample_oidc)] @ resource_param sample_oidc) = Ok v"
    "tok_refresh ?t = (if str_field v ''refresh_token'' = [] then ''rt'' else str_field v ''refresh_token'')"
    by blast
  then show ?thesis using ok by (auto simp: refresh_reply_def post_form_def)
qed

text \<open>
  (C19) The authorization request says what it means: read back as a query, the URL that is opened
  in the browser carries exactly the parameters of the request, each with its value, whatever
  characters the values hold.
\<close>

theorem authorize_url_parses:
  assumes "CHR ''?'' \<notin> set (oidc_issuer s)"
    and "\<forall>(k, v) \<in> set (authorize_params s redirect p). valid_utf8 v"
  shows "\<exists>q. split_once (CHR ''?'') (authorize_url s redirect p) =
               Some (trim_end_matches ''/'' (oidc_issuer s) @ ''/auth'', q) \<and>
           map query_pair (split_on (CHR ''&'') q) = map Some (authorize_params s redirect p)"
proof (intro exI conjI)
  let ?ps = "authorize_params s redirect p"
  have "CHR ''?'' \<notin> set (trim_end_matches ''/'' (oidc_issuer s) @ ''/auth'')"
    using assms(1) trim_end_matches_set [of "''/''" "oidc_issuer s"] by auto
  then show "split_once (CHR ''?'') (authorize_url s redirect p) =
      Some (trim_end_matches ''/'' (oidc_issuer s) @ ''/auth'', query_of ?ps)"
    using split_once_append [of "CHR ''?''" "trim_end_matches ''/'' (oidc_issuer s) @ ''/auth''"]
    by (simp add: authorize_url_query)
  have keys: "\<forall>(k, v) \<in> set ?ps. \<forall>c \<in> set k. unreserved c"
    by (rule authorize_params_keys)
  have "\<forall>(k, v) \<in> set ?ps. (\<forall>c \<in> set k. unreserved c) \<and> valid_utf8 v"
    using assms(2) keys by blast
  then show "map query_pair (split_on (CHR ''&'') (query_of ?ps)) = map Some ?ps"
    by (intro query_of_parses) (simp_all add: authorize_params_def)
qed

theorem authorize_url_parses_witness:
  "\<exists>q. split_once (CHR ''?'') (authorize_url sample_oidc ''http://127.0.0.1:51700/callback''
          (make_pkce (\<lambda>_. [1]) [1, 2] [3])) = Some (''https://id.example.com/oidc/auth'', q) \<and>
       map query_pair (split_on (CHR ''&'') q) =
         map Some (authorize_params sample_oidc ''http://127.0.0.1:51700/callback''
           (make_pkce (\<lambda>_. [1]) [1, 2] [3]))"
proof -
  let ?p = "make_pkce (\<lambda>_. [1]) [1, 2] [3]"
  have "CHR ''?'' \<notin> set (oidc_issuer sample_oidc)"
    "\<forall>(k, v) \<in> set (authorize_params sample_oidc ''http://127.0.0.1:51700/callback'' ?p). valid_utf8 v"
    "trim_end_matches ''/'' (oidc_issuer sample_oidc) @ ''/auth'' = ''https://id.example.com/oidc/auth''"
    by code_simp+
  then show ?thesis
    using authorize_url_parses [of sample_oidc "''http://127.0.0.1:51700/callback''" ?p] by simp
qed

text \<open>
  (C9) A reply is taken for the code only if it belongs to the request: whenever the listener
  returns a code, some connection delivered a query with a parameter \<^verbatim>\<open>state\<close> that decodes to the
  expected value and a non-empty parameter \<^verbatim>\<open>code\<close> that decodes to the code returned, and the
  browser was shown the page of success.
\<close>

theorem await_code_checks_state:
  assumes "await_code env port expect timeout fuel = Some (Returned (Ok c))" and "expect \<noteq> []"
  shows "c \<noteq> [] \<and> (\<exists>j bytes query. le_accept env j = Accepted bytes \<and>
           query = request_query (from_utf8_lossy (take 4096 bytes)) \<and>
           handle_request expect bytes = Some (callback_page True, Ok c) \<and>
           Some (''state'', expect) \<in> query_pair ` set (split_on (CHR ''&'') query) \<and>
           Some (''code'', c) \<in> query_pair ` set (split_on (CHR ''&'') query))"
proof -
  have "await_loop env expect (le_start env + timeout) fuel 0 = Some (Returned (Ok c))"
    using assms(1) by (auto simp: await_code_def split: sum.splits)
  from await_loop_Ok [OF this] obtain j bytes page
    where "le_accept env j = Accepted bytes" and ok: "handle_request expect bytes = Some (page, Ok c)"
    by blast
  with handle_request_Ok [OF ok assms(2)] show ?thesis by (force simp: image_iff)
qed

definition browser_env :: "string \<Rightarrow> listen_env" where
  "browser_env bytes = \<lparr>le_bind = Ok (), le_nonblocking = Ok (), le_start = 100,
     le_now = (\<lambda>_. 100), le_cancelled = (\<lambda>_. False),
     le_accept = (\<lambda>k. if k = 0 then WouldBlock else Accepted bytes)\<rparr>"

definition sample_request :: string where
  "sample_request = ''GET /callback?code=a%2Fb&state=xyz HTTP/1.1'' @ crlf @ ''Host: 127.0.0.1'' @ crlf @ crlf"

theorem await_code_checks_state_witness:
  "\<exists>query. Some (''state'', ''xyz'') \<in> query_pair ` set (split_on (CHR ''&'') query) \<and>
     Some (''code'', ''a/b'') \<in> query_pair ` set (split_on (CHR ''&'') query)"
proof -
  have "await_code (browser_env sample_request) 51700 ''xyz'' 300 9 = Some (Returned (Ok ''a/b''))"
    by code_simp
  from await_code_checks_state [OF this] show ?thesis by auto
qed

text \<open>
  (C15) The reply of an honest browser is understood: a code and a state, percent-encoded into the
  query of a request that fits the first read, come back as they were; the code is returned when
  the state is the expected one, and otherwise the sign-in fails and the browser is told so.
\<close>

theorem callback_roundtrip:
  fixes code state rest :: string
  defines "bytes \<equiv> ''GET /callback?code='' @ percent code @ ''&state='' @ percent state @
                     '' HTTP/1.1'' @ crlf @ rest"
  assumes "valid_utf8 code" and "code \<noteq> []" and "valid_utf8 state"
    and "\<forall>c \<in> set rest. ascii c" and "length bytes \<le> 4096"
  shows "handle_request expect bytes =
           Some (callback_page (state = expect),
             if state = expect then Ok code
             else Err (''sign-in state mismatch '' @ em_dash @ '' the reply did not match the request''))"
proof -
  let ?q = "''code='' @ percent code @ ''&state='' @ percent state"
  have q: "\<forall>c \<in> set ?q. graphic c" using percent_graphic by (auto simp: graphic_def)
  have bytes: "bytes = ''GET /callback?'' @ ?q @ '' HTTP/1.1'' @ crlf @ rest"
    by (simp add: bytes_def)
  have "\<forall>c \<in> set bytes. ascii c"
    using q graphic_ascii assms(5) unfolding bytes by (auto simp: crlf_def cr_def nl_def ascii_def)
  then have "from_utf8_lossy (take 4096 bytes) = bytes"
    using assms(6) by (simp add: from_utf8_lossy_valid valid_utf8_ascii)
  moreover have "request_query bytes = ?q"
    unfolding bytes by (rule request_query_line [OF q])
  moreover have "split_on (CHR ''&'') ?q = [''code='' @ percent code, ''state='' @ percent state]"
    using split_on_append [of "CHR ''&''" "''code='' @ percent code" "''state='' @ percent state"]
      percent_no [of "CHR ''&''"] by (simp add: unreserved_def)
  moreover have "query_pair (''code='' @ percent code) = Some (''code'', code)"
    "query_pair (''state='' @ percent state) = Some (''state'', state)"
    using query_pair_percent [of "''code''" code] query_pair_percent [of "''state''" state]
      assms(2,4) by simp_all
  ultimately show ?thesis
    using assms(3) by (simp add: handle_request_def set_param_def no_callback_def callback_ok_def
        callback_result_def)
qed

theorem callback_roundtrip_witness:
  "handle_request ''xyz'' (''GET /callback?code='' @ percent ''a/b'' @ ''&state='' @ percent ''xyz'' @
     '' HTTP/1.1'' @ crlf @ []) = Some (callback_page True, Ok ''a/b'')"
proof -
  have "valid_utf8 ''a/b''" "valid_utf8 ''xyz''"
    "length (''GET /callback?code='' @ percent ''a/b'' @ ''&state='' @ percent ''xyz'' @
       '' HTTP/1.1'' @ crlf @ []) \<le> 4096"
    by code_simp+
  then show ?thesis using callback_roundtrip [of "''a/b''" "''xyz''" "[]" "''xyz''"] by simp
qed

text \<open>
  (C36) Decoding the reply can bring the program down: the two bytes after a percent sign
  are sliced out of the string, and the slice panics when it ends inside a character, as it does for a
  percent sign, one ASCII character and one of two bytes. Any connection can send such a query, which
  needs no valid state; one of ASCII characters never does it.
\<close>

theorem callback_decoding_panics:
  "handle_request expect
     (''GET /callback?x=%a'' @ [CHR 0xC3, CHR 0xA9] @ '' HTTP/1.1'' @ crlf @ crlf) = None \<and>
   (\<forall>bytes. handle_request expect (filter ascii bytes) \<noteq> None)"
proof (intro conjI allI)
  have "read_params (split_on (CHR ''&'') (request_query (from_utf8_lossy (take 4096
      (''GET /callback?x=%a'' @ [CHR 0xC3, CHR 0xA9] @ '' HTTP/1.1'' @ crlf @ crlf))))) no_callback = None"
    by code_simp
  then show "handle_request expect
     (''GET /callback?x=%a'' @ [CHR 0xC3, CHR 0xA9] @ '' HTTP/1.1'' @ crlf @ crlf) = None"
    by (simp add: handle_request_def)
next
  fix bytes
  let ?req = "take 4096 (filter ascii bytes)"
  have ascii: "\<forall>c \<in> set ?req. ascii c" by (auto dest: in_set_takeD)
  then have "valid_utf8 ?req" by (rule valid_utf8_ascii)
  then have lossy: "from_utf8_lossy ?req = ?req" by (rule from_utf8_lossy_valid)
  have "\<forall>p \<in> set (split_on (CHR ''&'') (request_query ?req)). \<forall>c \<in> set p. ascii c"
    using ascii split_on_set request_query_set by blast
  then have "read_params (split_on (CHR ''&'') (request_query (from_utf8_lossy ?req))) no_callback \<noteq> None"
    unfolding lossy by (rule read_params_ascii)
  then show "handle_request expect (filter ascii bytes) \<noteq> None"
    unfolding handle_request_def by (simp only: option.map_disc_iff not_False_eq_True)
qed

text \<open>
  (C40) The PKCE verifier of a sign-in has 64 characters, all from the unreserved set of RFC 7636, and
  loses none of the 48 random bytes; so two sign-ins share a verifier only if they drew the same bytes.
\<close>

theorem pkce_conforms:
  assumes "length random48 = 48"
  shows "length (pk_verifier (make_pkce sha random48 random16)) = 64 \<and>
         list_all unreserved (pk_verifier (make_pkce sha random48 random16)) \<and>
         base64_decode (jwt_base64 (pk_verifier (make_pkce sha random48 random16))) = Some random48 \<and>
         pk_challenge (make_pkce sha random48 random16) =
           b64url (sha (pk_verifier (make_pkce sha random48 random16)))"
  using assms b64.dec_enc [of random48]
  by (simp add: make_pkce_def random_b64_def Let_def length_b64url list_all_iff b64url_unreserved)

theorem pkce_conforms_witness:
  "length (pk_verifier (make_pkce (\<lambda>_. []) (replicate 48 7) [])) = 64"
  using pkce_conforms [of "replicate 48 7" "\<lambda>_. []" "[]"] by simp

text \<open>
  The email that is shown is the one of the token: of any JWT whose payload part is the base64url
  form of some bytes, \<^verbatim>\<open>jwt_claim\<close> reads the claim of the JSON those bytes hold.
\<close>

theorem jwt_claim_reads_payload:
  assumes "CHR ''.'' \<notin> set header"
  shows "jwt_claim parse (header @ ''.'' @ b64url payload @ ''.'' @ signature) claim =
           (case parse payload of None \<Rightarrow> [] | Some v \<Rightarrow> str_field v claim)"
proof -
  have "CHR ''.'' \<notin> set (b64url payload)" using b64url_no_dot by blast
  then have "split_on (CHR ''.'') (header @ ''.'' @ b64url payload @ ''.'' @ signature) =
      header # b64url payload # split_on (CHR ''.'') signature"
    using assms by simp
  then show ?thesis
    by (simp add: jwt_claim_def decode_b64url str_field_def split: option.split)
qed

theorem jwt_claim_reads_payload_witness:
  "jwt_claim (\<lambda>b. if b = [123, 125] then Some (JObj [(''email'', JStr ''a@b'')]) else None)
     (''h'' @ ''.'' @ b64url [123, 125] @ ''.'' @ ''s'') ''email'' = ''a@b''"
  using jwt_claim_reads_payload [of "''h''" _ "[123, 125]" "''s''" "''email''"]
  by (simp add: str_field_def get_str_def)

end
