(* ===== verification/Process.thy ===== *)
theory Process
  imports Prelude
begin

text \<open>
  Programs the sources run to completion with \<^verbatim>\<open>Command::output\<close>: what a run returns, and a
  runner that answers every command line. What a program does is not under the sources' control,
  so the runner is an argument of the definitions that use it.
\<close>

record proc_output =
  out_success :: bool
  out_stdout :: string
  out_stderr :: string

type_synonym command = "string \<times> string list"
type_synonym runner = "command \<Rightarrow> proc_output result"

end
