(* ===== verification/Enroll.thy ===== *)
theory Enroll
  imports Transport Auth Process
begin

text \<open>
  \<^verbatim>\<open>enroll.rs\<close>: the key pair, the exchange for a certificate, the pinned host key and the record of
  the enrollment, all in the configuration directory. Key generation, the service, the clock and
  \<^verbatim>\<open>icacls\<close> are arguments.
\<close>

section \<open>The record\<close>

record enrollment =
  enr_identity :: string
  enr_host :: string
  enr_port :: u16
  enr_user :: string
  enr_host_fingerprint :: string
  enr_expires_at :: u64
  enr_serial :: u64
  enr_ws_url :: string
  enr_ws_target :: string

definition enrollment_path :: "path \<Rightarrow> path" where
  "enrollment_path dir = path_join dir ''enrollment.json''"

definition enrollment_load ::
    "(string \<Rightarrow> enrollment option) \<Rightarrow> io_env \<Rightarrow> path \<Rightarrow> store \<Rightarrow> enrollment option" where
  "enrollment_load de env dir st =
     (case read_to_string env (enrollment_path dir) st of Err _ \<Rightarrow> None | Ok s \<Rightarrow> de s)"

definition enrollment_save ::
    "(enrollment \<Rightarrow> string result) \<Rightarrow> io_env \<Rightarrow> path \<Rightarrow> enrollment \<Rightarrow> store \<Rightarrow>
     unit result \<times> store" where
  "enrollment_save ser env dir r st =
     (case ser r of
        Err e \<Rightarrow> (Err e, st)
      | Ok body \<Rightarrow> write_file env (enrollment_path dir) body st)"

definition needs_renewal :: "u64 \<Rightarrow> enrollment \<Rightarrow> bool" where
  "needs_renewal now r \<longleftrightarrow> enr_expires_at r \<le> now + 7200"

definition enrollment_is_valid :: "u64 \<Rightarrow> enrollment \<Rightarrow> bool" where
  "enrollment_is_valid now r \<longleftrightarrow> now < enr_expires_at r"

definition key_path :: "path \<Rightarrow> path" where
  "key_path dir = path_join dir ''id_ed25519''"

definition public_key_path :: "path \<Rightarrow> path" where
  "public_key_path dir = path_join dir ''id_ed25519.pub''"

definition cert_path :: "path \<Rightarrow> path" where
  "cert_path dir = path_join dir ''id_ed25519-cert.pub''"

definition known_hosts_path :: "path \<Rightarrow> path" where
  "known_hosts_path dir = path_join dir ''known_hosts''"

lemmas path_defs =
  enrollment_path_def key_path_def public_key_path_def cert_path_def known_hosts_path_def

section \<open>The key pair\<close>

text \<open>What the key library returns: the key, its two encodings.\<close>

record keygen =
  kg_random :: "unit result"
  kg_private :: "string result"
  kg_public :: "string result"

definition restrict_grant :: "string option \<Rightarrow> string" where
  "restrict_grant user =
     (let u = (case user of Some u \<Rightarrow> u | None \<Rightarrow> [])
      in if u = [] then ''%USERNAME%:F'' else u @ '':F'')"

definition restrict_access :: "runner \<Rightarrow> string option \<Rightarrow> path \<Rightarrow> unit result" where
  "restrict_access runs user p =
     (case runs (''icacls'', [path_display p, ''/inheritance:r'', ''/grant:r'', restrict_grant user]) of
        Err e \<Rightarrow> Err (''icacls failed: '' @ e)
      | Ok out \<Rightarrow>
          if out_success out then Ok ()
          else Err (''could not restrict '' @ path_display p @ '': '' @
                 trim (from_utf8_lossy (out_stderr out))))"

definition generate_key ::
    "io_env \<Rightarrow> keygen \<Rightarrow> runner \<Rightarrow> string option \<Rightarrow> path \<Rightarrow> store \<Rightarrow> string result \<times> store" where
  "generate_key env kg runs user dir st =
     (case create_dir_all env dir of
        Err e \<Rightarrow> (Err e, st)
      | Ok _ \<Rightarrow>
      case kg_random kg of
        Err e \<Rightarrow> (Err (''key generation failed: '' @ e), st)
      | Ok _ \<Rightarrow>
      case kg_private kg of
        Err e \<Rightarrow> (Err (''cannot encode private key: '' @ e), st)
      | Ok private \<Rightarrow>
      case kg_public kg of
        Err e \<Rightarrow> (Err (''cannot encode public key: '' @ e), st)
      | Ok public \<Rightarrow>
          let st1 = remove_file env (cert_path dir) (remove_file env (key_path dir) st) in
          case write_file env (key_path dir) private st1 of
            (Err e, st2) \<Rightarrow> (Err e, st2)
          | (Ok _, st2) \<Rightarrow>
          case write_file env (public_key_path dir) (public @ [nl]) st2 of
            (Err e, st3) \<Rightarrow> (Err e, st3)
          | (Ok _, st3) \<Rightarrow>
              (case restrict_access runs user (key_path dir) of
                 Err e \<Rightarrow> (Err e, st3)
               | Ok _ \<Rightarrow> (Ok public, st3)))"

section \<open>Enrolling\<close>

text \<open>The service: the URL, the value of the Authorization header and the body decide the reply.\<close>

type_synonym service = "string \<Rightarrow> string \<Rightarrow> json \<Rightarrow> http_result"

definition no_url_msg :: string where
  "no_url_msg = ''No enrollment URL configured.''"

definition no_cert_msg :: string where
  "no_cert_msg = ''the enrollment service returned no certificate''"

definition not_cert_msg :: string where
  "not_cert_msg = ''the enrollment service returned something that is not a certificate''"

definition cert_marker :: string where
  "cert_marker = ''cert-v01@openssh.com''"

definition service_reply :: "http_result \<Rightarrow> json result" where
  "service_reply resp =
     (case resp of
        Inr r \<Rightarrow> (case resp_json r of Ok v \<Rightarrow> Ok v | Err e \<Rightarrow> Err (''bad response: '' @ e))
      | Inl (StatusError r) \<Rightarrow>
          Err (case Option.bind (case resp_json r of Ok v \<Rightarrow> Some v | Err _ \<Rightarrow> None) (get_str ''error'') of
                 Some d \<Rightarrow> d | None \<Rightarrow> ''HTTP '' @ show_word (resp_status r))
      | Inl (TransportError e) \<Rightarrow> Err (''cannot reach the enrollment service: '' @ e))"

definition enrollment_of :: "u64 \<Rightarrow> json \<Rightarrow> enrollment" where
  "enrollment_of now v =
     (let tunnel = unwrap_or JNull (json_get ''tunnel'' v) in
      \<lparr>enr_identity = str_field v ''identity'', enr_host = str_field tunnel ''host'',
       enr_port = ucast (unwrap_or 2223 (get_u64 ''port'' tunnel)),
       enr_user = (if str_field tunnel ''user'' = [] then ''tunnel'' else str_field tunnel ''user''),
       enr_host_fingerprint = str_field tunnel ''host_fingerprint'',
       enr_expires_at = unwrap_or (now + 43200) (get_u64 ''expires_at'' v),
       enr_serial = unwrap_or 0 (get_u64 ''serial'' v),
       enr_ws_url = str_field tunnel ''ws_url'', enr_ws_target = str_field tunnel ''ws_target''\<rparr>)"

definition host_key_of :: "json \<Rightarrow> string" where
  "host_key_of v = str_field (unwrap_or JNull (json_get ''tunnel'' v)) ''host_key''"

definition pin_host_key :: "io_env \<Rightarrow> path \<Rightarrow> string \<Rightarrow> store \<Rightarrow> unit result \<times> store" where
  "pin_host_key env dir host_key st =
     (if host_key = [] then (Ok (), st)
      else write_file env (known_hosts_path dir) (host_alias @ '' '' @ host_key @ [nl]) st)"

text \<open>What follows the reply: the certificate is written, the host key pinned, the record saved.\<close>

definition install ::
    "(enrollment \<Rightarrow> string result) \<Rightarrow> io_env \<Rightarrow> u64 \<Rightarrow> path \<Rightarrow> json \<Rightarrow> store \<Rightarrow>
     enrollment result \<times> store" where
  "install ser env now dir v st =
     (case get_str ''certificate'' v of
        None \<Rightarrow> (Err no_cert_msg, st)
      | Some certificate \<Rightarrow>
          if \<not> contains certificate cert_marker then (Err not_cert_msg, st)
          else
            case write_file env (cert_path dir) (certificate @ [nl]) st of
              (Err e, st1) \<Rightarrow> (Err e, st1)
            | (Ok _, st1) \<Rightarrow>
            case pin_host_key env dir (host_key_of v) st1 of
              (Err e, st2) \<Rightarrow> (Err e, st2)
            | (Ok _, st2) \<Rightarrow>
            case enrollment_save ser env dir (enrollment_of now v) st2 of
              (Err e, st3) \<Rightarrow> (Err e, st3)
            | (Ok _, st3) \<Rightarrow> (Ok (enrollment_of now v), st3))"

definition enroll ::
    "(enrollment \<Rightarrow> string result) \<Rightarrow> io_env \<Rightarrow> keygen \<Rightarrow> runner \<Rightarrow> string option \<Rightarrow> service \<Rightarrow>
     u64 \<Rightarrow> path \<Rightarrow> string \<Rightarrow> tokens \<Rightarrow> store \<Rightarrow> enrollment result \<times> store" where
  "enroll ser env kg runs user service now dir url tokens st =
     (if trim url = [] then (Err no_url_msg, st)
      else
        case generate_key env kg runs user dir st of
          (Err e, st1) \<Rightarrow> (Err e, st1)
        | (Ok public, st1) \<Rightarrow>
            (case service_reply (service (trim url) (''Bearer '' @ tok_access tokens)
                    (JObj [(''id_token'', JStr (tok_id tokens)), (''public_key'', JStr public)])) of
               Err e \<Rightarrow> (Err e, st1)
             | Ok v \<Rightarrow> install ser env now dir v st1))"

definition clear :: "io_env \<Rightarrow> path \<Rightarrow> store \<Rightarrow> store" where
  "clear env dir st =
     remove_files env
       [key_path dir, cert_path dir, known_hosts_path dir, public_key_path dir, enrollment_path dir] st"

section \<open>Facts about enrolling\<close>

lemma paths_distinct [simp]:
  "key_path d \<noteq> cert_path d" "key_path d \<noteq> public_key_path d" "key_path d \<noteq> known_hosts_path d"
  "key_path d \<noteq> enrollment_path d" "cert_path d \<noteq> key_path d" "cert_path d \<noteq> public_key_path d"
  "cert_path d \<noteq> known_hosts_path d" "cert_path d \<noteq> enrollment_path d"
  "public_key_path d \<noteq> key_path d" "public_key_path d \<noteq> cert_path d"
  "public_key_path d \<noteq> known_hosts_path d" "public_key_path d \<noteq> enrollment_path d"
  "known_hosts_path d \<noteq> key_path d" "known_hosts_path d \<noteq> cert_path d"
  "known_hosts_path d \<noteq> public_key_path d" "known_hosts_path d \<noteq> enrollment_path d"
  "enrollment_path d \<noteq> key_path d" "enrollment_path d \<noteq> cert_path d"
  "enrollment_path d \<noteq> public_key_path d" "enrollment_path d \<noteq> known_hosts_path d"
  by (simp_all add: path_defs)

lemma generate_key_OkD:
  assumes "generate_key env kg runs user dir st = (Ok public, st')"
  shows "kg_public kg = Ok public \<and> (\<exists>private. kg_private kg = Ok private \<and>
           st' = (remove_file env (cert_path dir) (remove_file env (key_path dir) st))
                   (key_path dir \<mapsto> private, public_key_path dir \<mapsto> public @ [nl]))"
  using assms
  by (auto simp: generate_key_def Let_def split: sum.splits prod.splits dest!: write_file_OkD)

lemma install_OkD:
  assumes "install ser env now dir v st = (Ok r, st')"
  shows "\<exists>cert body st1. get_str ''certificate'' v = Some cert \<and> contains cert cert_marker \<and>
           r = enrollment_of now v \<and> ser r = Ok body \<and>
           st1 = st(cert_path dir \<mapsto> cert @ [nl]) \<and>
           st' = (if host_key_of v = [] then st1
                  else st1(known_hosts_path dir \<mapsto> host_alias @ '' '' @ host_key_of v @ [nl]))
                   (enrollment_path dir \<mapsto> body)"
  using assms
  by (auto simp: install_def pin_host_key_def enrollment_save_def
      split: option.splits if_splits sum.splits prod.splits dest!: write_file_OkD)

lemma enroll_OkD:
  assumes "enroll ser env kg runs user service now dir url tokens st = (Ok r, st')"
  shows "\<exists>public v st1. generate_key env kg runs user dir st = (Ok public, st1) \<and>
           service_reply (service (trim url) (''Bearer '' @ tok_access tokens)
             (JObj [(''id_token'', JStr (tok_id tokens)), (''public_key'', JStr public)])) = Ok v \<and>
           install ser env now dir v st1 = (Ok r, st')"
  using assms
  by (auto simp: enroll_def split: if_splits sum.splits prod.splits)

lemma clear_apply:
  "\<forall>q. remove_ok env q \<Longrightarrow>
   clear env dir st = (\<lambda>q. if q \<in> {key_path dir, cert_path dir, known_hosts_path dir,
     public_key_path dir, enrollment_path dir} then None else st q)"
  by (rule ext) (simp add: clear_def remove_files_apply del: remove_files.simps)

lemma generate_key_answer: "fst (generate_key env kg runs user dir st) = fst (generate_key env kg runs user dir st')"
  by (simp add: generate_key_def Let_def write_file_def split: sum.split write_outcome.split)

lemma generate_key_frame:
  "generate_key env kg runs user dir st = (r, st') \<Longrightarrow> q \<notin> {key_path dir, cert_path dir, public_key_path dir} \<Longrightarrow>
   st' q = st q"
  by (auto simp: generate_key_def Let_def remove_file_def write_file_def
      split: sum.splits prod.splits write_outcome.splits if_splits)

lemma install_frame:
  "install ser env now dir v st = (r, st') \<Longrightarrow> q \<notin> {cert_path dir, known_hosts_path dir, enrollment_path dir} \<Longrightarrow>
   st' q = st q"
  by (auto simp: install_def pin_host_key_def enrollment_save_def write_file_def
      split: sum.splits prod.splits write_outcome.splits if_splits option.splits)

lemma install_ErrD:
  assumes "install ser env now dir v st = (Err e, st')"
  shows "(get_str ''certificate'' v = None \<and> e = no_cert_msg \<and> st' = st) \<or>
         (\<exists>cert. get_str ''certificate'' v = Some cert \<and>
            (\<not> contains cert cert_marker \<and> e = not_cert_msg \<and> st' = st \<or>
             contains cert cert_marker \<and>
             (ser (enrollment_of now v) = Err e \<or> write_error env (cert_path dir) = Some e \<or>
              write_error env (known_hosts_path dir) = Some e \<or> write_error env (enrollment_path dir) = Some e)))"
  using assms
  by (auto simp: install_def pin_host_key_def enrollment_save_def
      split: option.splits if_splits sum.splits prod.splits dest!: write_file_ErrD)

lemma enroll_contents:
  assumes "enroll ser env kg runs user service now dir url tokens st = (Ok r, st')"
  shows "\<exists>private public v cert body.
           kg_private kg = Ok private \<and> st' (key_path dir) = Some private \<and>
           kg_public kg = Ok public \<and> st' (public_key_path dir) = Some (public @ [nl]) \<and>
           service_reply (service (trim url) (''Bearer '' @ tok_access tokens)
             (JObj [(''id_token'', JStr (tok_id tokens)), (''public_key'', JStr public)])) = Ok v \<and>
           get_str ''certificate'' v = Some cert \<and> contains cert cert_marker \<and>
           st' (cert_path dir) = Some (cert @ [nl]) \<and>
           st' (known_hosts_path dir) =
             (if host_key_of v = [] then st (known_hosts_path dir)
              else Some (host_alias @ '' '' @ host_key_of v @ [nl])) \<and>
           r = enrollment_of now v \<and> ser r = Ok body \<and> st' (enrollment_path dir) = Some body \<and>
           (\<forall>q. q \<notin> {key_path dir, public_key_path dir, cert_path dir, known_hosts_path dir,
                     enrollment_path dir} \<longrightarrow> st' q = st q)"
proof -
  obtain public v st1 where gen: "generate_key env kg runs user dir st = (Ok public, st1)"
    and v: "service_reply (service (trim url) (''Bearer '' @ tok_access tokens)
      (JObj [(''id_token'', JStr (tok_id tokens)), (''public_key'', JStr public)])) = Ok v"
    and ins: "install ser env now dir v st1 = (Ok r, st')"
    using enroll_OkD [OF assms] by blast
  obtain secret where key: "kg_public kg = Ok public" "kg_private kg = Ok secret"
    "st1 = (remove_file env (cert_path dir) (remove_file env (key_path dir) st))
       (key_path dir \<mapsto> secret, public_key_path dir \<mapsto> public @ [nl])"
    using generate_key_OkD [OF gen] by blast
  obtain cert body st2 where out: "get_str ''certificate'' v = Some cert" "contains cert cert_marker"
    "r = enrollment_of now v" "ser r = Ok body" "st2 = st1(cert_path dir \<mapsto> cert @ [nl])"
    "st' = (if host_key_of v = [] then st2
            else st2(known_hosts_path dir \<mapsto> host_alias @ '' '' @ host_key_of v @ [nl]))
             (enrollment_path dir \<mapsto> body)"
    using install_OkD [OF ins] by blast
  show ?thesis
    by (rule exI [of _ secret], rule exI [of _ public], rule exI [of _ v], rule exI [of _ cert],
        rule exI [of _ body]) (use key v out in \<open>simp add: remove_file_def\<close>)
qed

section \<open>Properties\<close>

text \<open>
  (C10) A successful enrollment leaves a complete set: the private key that was generated, its
  public half with the certificate the service issued for it, the server's key pinned under the
  fixed alias when the service named one (and the old pin kept when not), and the record that is
  returned; no other file has changed.
\<close>

theorem enroll_installs:
  assumes "enroll ser env kg runs user service now dir url tokens st = (Ok r, st')"
  shows "\<exists>private public v cert body.
           kg_private kg = Ok private \<and> st' (key_path dir) = Some private \<and>
           kg_public kg = Ok public \<and> st' (public_key_path dir) = Some (public @ [nl]) \<and>
           service_reply (service (trim url) (''Bearer '' @ tok_access tokens)
             (JObj [(''id_token'', JStr (tok_id tokens)), (''public_key'', JStr public)])) = Ok v \<and>
           get_str ''certificate'' v = Some cert \<and> contains cert cert_marker \<and>
           st' (cert_path dir) = Some (cert @ [nl]) \<and>
           st' (known_hosts_path dir) =
             (if host_key_of v = [] then st (known_hosts_path dir)
              else Some (host_alias @ '' '' @ host_key_of v @ [nl])) \<and>
           r = enrollment_of now v \<and> ser r = Ok body \<and> st' (enrollment_path dir) = Some body \<and>
           (\<forall>q. q \<notin> {key_path dir, public_key_path dir, cert_path dir, known_hosts_path dir,
                     enrollment_path dir} \<longrightarrow> st' q = st q)"
  using assms by (rule enroll_contents)

text \<open>A service that answers with a certificate, for concrete runs.\<close>

definition sample_keygen :: keygen where
  "sample_keygen = \<lparr>kg_random = Ok (), kg_private = Ok ''PRIVATE'', kg_public = Ok ''ssh-ed25519 AAAA''\<rparr>"

definition sample_reply :: json where
  "sample_reply = JObj [(''certificate'', JStr (''ssh-ed25519-'' @ cert_marker @ '' BBBB'')),
     (''tunnel'', JObj [(''host'', JStr ''t.example.com''), (''host_key'', JStr ''ssh-ed25519 CCCC'')])]"

definition quiet_runner :: runner where
  "quiet_runner = (\<lambda>_. Ok \<lparr>out_success = True, out_stdout = [], out_stderr = []\<rparr>)"

definition sample_tokens :: tokens where
  "sample_tokens = \<lparr>tok_access = ''at'', tok_id = ''id'', tok_refresh = ''rt'', tok_expires_at = 0,
     tok_email = []\<rparr>"

definition granting :: service where
  "granting = (\<lambda>_ _ _. Inr (Response 200 (Ok sample_reply)))"

theorem enroll_installs_witness:
  "\<exists>r st'. enroll (\<lambda>_. Ok ''{}'') good_env sample_keygen quiet_runner None granting 100 [''d'']
              ''https://e.example.com/enroll'' sample_tokens (\<lambda>_. None) = (Ok r, st') \<and>
            st' (key_path [''d'']) = Some ''PRIVATE'' \<and> enr_port r = 2223"
proof -
  have "fst (enroll (\<lambda>_. Ok ''{}'') good_env sample_keygen quiet_runner None granting 100 [''d'']
      ''https://e.example.com/enroll'' sample_tokens (\<lambda>_. None)) = Ok (enrollment_of 100 sample_reply)"
    by code_simp
  then obtain st' where en: "enroll (\<lambda>_. Ok ''{}'') good_env sample_keygen quiet_runner None granting 100 [''d'']
      ''https://e.example.com/enroll'' sample_tokens (\<lambda>_. None) = (Ok (enrollment_of 100 sample_reply), st')"
    by (metis prod.collapse)
  moreover have "enr_port (enrollment_of 100 sample_reply) = 2223" by code_simp
  moreover have "st' (key_path [''d'']) = Some ''PRIVATE''"
    using enroll_installs [OF en] by (auto simp: sample_keygen_def)
  ultimately show ?thesis by blast
qed

text \<open>
  A failed renewal costs the certificate. The new key replaces the old one, and the old
  certificate is deleted, before the service is asked; when it then refuses or cannot be reached,
  the record of the enrollment still stands, but no certificate is left for it, however long it
  would have been valid.
\<close>

theorem failed_renewal_loses_certificate:
  assumes "trim url \<noteq> []" and "generate_key env kg runs user dir st = (Ok public, st1)"
    and "remove_ok env (cert_path dir)"
    and "service_reply (service (trim url) (''Bearer '' @ tok_access tokens)
           (JObj [(''id_token'', JStr (tok_id tokens)), (''public_key'', JStr public)])) = Err e"
  shows "fst (enroll ser env kg runs user service now dir url tokens st) = Err e \<and>
         snd (enroll ser env kg runs user service now dir url tokens st) (cert_path dir) = None \<and>
         snd (enroll ser env kg runs user service now dir url tokens st) (enrollment_path dir) =
           st (enrollment_path dir)"
  using assms generate_key_OkD [OF assms(2)]
  by (auto simp: enroll_def remove_file_def)

theorem failed_renewal_loses_certificate_witness:
  "snd (enroll (\<lambda>_. Ok ''{}'') good_env sample_keygen quiet_runner None
      (\<lambda>_ _ _. Inl (TransportError ''timed out'')) 100 [''d''] ''https://e'' sample_tokens
      ((\<lambda>_. None)(cert_path [''d''] \<mapsto> ''CERT''))) (cert_path [''d'']) = None"
proof -
  let ?st = "(\<lambda>_. None)(cert_path [''d''] \<mapsto> ''CERT'')"
  have trim: "trim ''https://e'' \<noteq> []" by code_simp
  have "fst (generate_key good_env sample_keygen quiet_runner None [''d''] ?st) = Ok ''ssh-ed25519 AAAA''"
    by code_simp
  then obtain st1 where gen: "generate_key good_env sample_keygen quiet_runner None [''d''] ?st =
      (Ok ''ssh-ed25519 AAAA'', st1)" by (metis prod.collapse)
  show ?thesis
    using failed_renewal_loses_certificate [OF trim gen,
        of "\<lambda>_ _ _. Inl (TransportError ''timed out'')" sample_tokens
           "''cannot reach the enrollment service: timed out''" "\<lambda>_. Ok ''{}''" 100]
    by (simp add: service_reply_def)
qed

text \<open>
  Signing out leaves nothing behind: when the files can be removed, no credential of the five
  is left and no record loads, and every other file (the configuration among them) is as it was.
\<close>

theorem clear_removes_credentials:
  assumes "\<forall>q. remove_ok env q"
  shows "clear env dir st = (\<lambda>q. if q \<in> {key_path dir, cert_path dir, known_hosts_path dir,
           public_key_path dir, enrollment_path dir} then None else st q) \<and>
         enrollment_load de env dir (clear env dir st) = None \<and>
         config_load dc env dir (clear env dir st) = config_load dc env dir st"
  using clear_apply [OF assms]
  by (simp add: enrollment_load_def config_load_def config_path_def path_defs read_to_string_def)

theorem clear_removes_credentials_witness:
  "clear good_env [''d''] ((\<lambda>_. None)(key_path [''d''] \<mapsto> ''K'')) (key_path [''d'']) = None"
  using clear_removes_credentials [of good_env "[''d'']" "(\<lambda>_. None)(key_path [''d''] \<mapsto> ''K'')"]
  by simp

text \<open>
  A record that needs no renewal has more than two hours left, as long as the clock is two
  hours short of overflowing; beyond that the sum wraps and an expired record passes for fresh.
\<close>

theorem needs_renewal_slack:
  "(unat now + 7200 < 2 ^ 64 \<longrightarrow>
      (needs_renewal now r \<longleftrightarrow> unat (enr_expires_at r) \<le> unat now + 7200)) \<and>
   \<not> needs_renewal (- 7200) (enrollment_of (- 7200) (JObj [(''expires_at'', JNum (PosInt 1))]))"
proof (intro conjI impI)
  assume "unat now + 7200 < 2 ^ 64"
  then have "unat (now + 7200) = unat now + 7200" by (simp add: unat_word_ariths)
  then show "needs_renewal now r \<longleftrightarrow> unat (enr_expires_at r) \<le> unat now + 7200"
    by (simp add: needs_renewal_def word_le_nat_alt)
next
  show "\<not> needs_renewal (- 7200) (enrollment_of (- 7200) (JObj [(''expires_at'', JNum (PosInt 1))]))"
    by (simp add: needs_renewal_def enrollment_of_def Let_def get_u64_def)
qed

theorem needs_renewal_slack_witness:
  "\<not> needs_renewal 100 (enrollment_of 100 sample_reply) \<and>
   needs_renewal 100 (enrollment_of 100 sample_reply) =
     (unat (enr_expires_at (enrollment_of 100 sample_reply)) \<le> 7300)"
proof -
  have "enr_expires_at (enrollment_of 100 sample_reply) = 43300" by code_simp
  then show ?thesis using needs_renewal_slack [of 100 "enrollment_of 100 sample_reply"] by simp
qed

end
