(* ===== verification/Spotify.thy ===== *)
theory Spotify
  imports Config Transport Process Utf8
begin

text \<open>
  \<^verbatim>\<open>spotify.rs\<close>: reading and rewriting keys of Spotify's preferences, the state reported from them,
  and the two operations that point Spotify at the tunnel and away from it. \<^verbatim>\<open>APPDATA\<close>, the files
  and the output of \<^verbatim>\<open>tasklist\<close> are arguments.
\<close>

section \<open>Keys\<close>

definition quote :: string where
  "quote = [CHR 0x22]"

text \<open>The loop of \<^verbatim>\<open>get_key\<close>; the question mark on \<^verbatim>\<open>split_once\<close> ends it at a line without an equals sign.\<close>

fun get_key_lines :: "string \<Rightarrow> string list \<Rightarrow> string option" where
  "get_key_lines key [] = None"
| "get_key_lines key (line # ls) =
     (case split_once (CHR ''='') line of
        None \<Rightarrow> None
      | Some (k, v) \<Rightarrow> if trim k = key then Some (trim_matches quote (trim v)) else get_key_lines key ls)"

definition get_key :: "string \<Rightarrow> string \<Rightarrow> string option" where
  "get_key body key = get_key_lines key (lines body)"

definition has_key :: "string \<Rightarrow> string \<Rightarrow> bool" where
  "has_key key line \<longleftrightarrow> trim (hd (split_on (CHR ''='') line)) = key"

definition set_key :: "string \<Rightarrow> string \<Rightarrow> string \<Rightarrow> string" where
  "set_key body key value =
     join [nl]
       (map (\<lambda>l. if has_key key l then key @ ''='' @ value else l) (lines body) @
        (if list_ex (has_key key) (lines body) then [] else [key @ ''='' @ value]))"

section \<open>The state reported\<close>

definition mode_proxy :: int where "mode_proxy = 4"
definition mode_none :: int where "mode_none = 0"

record spotify_report =
  sf_found :: bool
  sf_path :: string
  sf_mode :: int
  sf_addr :: string
  sf_port :: u16
  sf_points_at_us :: bool
  sf_running :: bool

definition spotify_default :: spotify_report where
  "spotify_default = \<lparr>sf_found = False, sf_path = [], sf_mode = 0, sf_addr = [], sf_port = 0,
     sf_points_at_us = False, sf_running = False\<rparr>"

definition prefs_path :: "path option \<Rightarrow> path option" where
  "prefs_path appdata = map_option (\<lambda>a. path_join (path_join a ''Spotify'') ''prefs'') appdata"

definition spotify_running :: "runner \<Rightarrow> bool" where
  "spotify_running runs =
     (case runs (''tasklist'', [''/FI'', ''IMAGENAME eq Spotify.exe'', ''/NH'']) of
        Err _ \<Rightarrow> False
      | Ok out \<Rightarrow> contains (from_utf8_lossy (out_stdout out)) ''Spotify.exe'')"

definition mode_key :: string where "mode_key = ''network.proxy.mode''"
definition addr_key :: string where "addr_key = ''network.proxy.addr''"

text \<open>What the body of the preferences says: mode, address, port, and whether it is our listener.\<close>

definition read_prefs :: "string \<Rightarrow> u16 \<Rightarrow> spotify_report \<Rightarrow> spotify_report" where
  "read_prefs body local_port s =
     (let mode = (case Option.bind (get_key body mode_key) parse_i32 of Some m \<Rightarrow> m | None \<Rightarrow> 0);
          addr = (case get_key body addr_key of Some a \<Rightarrow> a | None \<Rightarrow> []);
          (hostport, scheme) = (case split_once (CHR ''@'') addr of Some hs \<Rightarrow> hs | None \<Rightarrow> (addr, []));
          (host, port) =
            (case rsplit_once (CHR '':'') hostport of
               Some (h, p) \<Rightarrow> (h, (case parse_u16 p of Some n \<Rightarrow> n | None \<Rightarrow> 0))
             | None \<Rightarrow> (hostport, 0))
      in s\<lparr>sf_found := True, sf_mode := mode, sf_addr := addr, sf_port := port,
           sf_points_at_us := (mode = mode_proxy \<and> port = local_port \<and>
             eq_ignore_ascii_case scheme ''socks5'' \<and> (host = ''127.0.0.1'' \<or> host = ''localhost''))\<rparr>)"

definition spotify_state :: "io_env \<Rightarrow> runner \<Rightarrow> path option \<Rightarrow> store \<Rightarrow> u16 \<Rightarrow> spotify_report" where
  "spotify_state env runs appdata st local_port =
     (case prefs_path appdata of
        None \<Rightarrow> spotify_default
      | Some p \<Rightarrow>
          (let s = spotify_default\<lparr>sf_path := path_display p, sf_running := spotify_running runs\<rparr>
           in case read_to_string env p st of Err _ \<Rightarrow> s | Ok body \<Rightarrow> read_prefs body local_port s))"

section \<open>Applying and restoring\<close>

text \<open>\<^verbatim>\<open>with_extension("splitstream.bak")\<close> on a file name without a dot.\<close>

definition backup_path :: "path \<Rightarrow> path" where
  "backup_path p = butlast p @ [last p @ ''.splitstream.bak'']"

definition not_found_msg :: "path \<Rightarrow> string" where
  "not_found_msg p = ''Spotify'' @ [CHR 0x27] @ ''s settings file was not found at '' @ path_display p @
     ''. Open Spotify once, then try again.''"

definition proxied_body :: "u16 \<Rightarrow> string \<Rightarrow> string" where
  "proxied_body local_port body =
     set_key (set_key body mode_key ''4'') addr_key
       (quote @ ''127.0.0.1:'' @ show_word local_port @ ''@socks5'' @ quote)"

definition no_appdata_msg :: string where
  "no_appdata_msg = ''APPDATA is not set''"

definition spotify_apply ::
    "io_env \<Rightarrow> runner \<Rightarrow> path option \<Rightarrow> u16 \<Rightarrow> store \<Rightarrow> spotify_report result \<times> store" where
  "spotify_apply env runs appdata local_port st =
     (case prefs_path appdata of
        None \<Rightarrow> (Err no_appdata_msg, st)
      | Some p \<Rightarrow>
          if \<not> path_exists p st then (Err (not_found_msg p), st)
          else
            case (if path_exists (backup_path p) st then (Ok (), st)
                  else copy_file env p (backup_path p) st) of
              (Err e, st1) \<Rightarrow> (Err e, st1)
            | (Ok _, st1) \<Rightarrow>
            case read_to_string env p st1 of
              Err e \<Rightarrow> (Err e, st1)
            | Ok body \<Rightarrow>
            case write_file env p (proxied_body local_port body) st1 of
              (Err e, st2) \<Rightarrow> (Err e, st2)
            | (Ok _, st2) \<Rightarrow> (Ok (spotify_state env runs appdata st2 local_port), st2))"

definition spotify_restore :: "io_env \<Rightarrow> path option \<Rightarrow> store \<Rightarrow> unit result \<times> store" where
  "spotify_restore env appdata st =
     (case prefs_path appdata of
        None \<Rightarrow> (Err no_appdata_msg, st)
      | Some p \<Rightarrow>
          if \<not> path_exists p st then (Ok (), st)
          else
            case read_to_string env p st of
              Err e \<Rightarrow> (Err e, st)
            | Ok body \<Rightarrow> write_file env p (set_key body mode_key ''0'') st)"

section \<open>Preferences as a keyed store\<close>

text \<open>A file of Spotify's own making: every line has a key and ends without a carriage return.\<close>

definition prefs_ok :: "string \<Rightarrow> bool" where
  "prefs_ok body \<longleftrightarrow> list_all (\<lambda>l. CHR ''='' \<in> set l \<and> last l \<noteq> cr) (lines body)"

definition pref_key_ok :: "string \<Rightarrow> bool" where
  "pref_key_ok k \<longleftrightarrow> trim k = k \<and> CHR ''='' \<notin> set k \<and> nl \<notin> set k"

definition pref_value_ok :: "string \<Rightarrow> bool" where
  "pref_value_ok v \<longleftrightarrow> nl \<notin> set v \<and> (v = [] \<or> last v \<noteq> cr)"

lemma lines_no_nl: "l \<in> set (lines s) \<Longrightarrow> nl \<notin> set l"
  by (auto simp: lines_def Let_def strip_cr_def dest!: in_set_butlastD split_on_pieces
      split: if_splits dest: in_set_butlastD)
    (metis last_in_set split_on_not_Nil split_on_pieces)

lemma lines_join:
  assumes "\<And>l. l \<in> set ls \<Longrightarrow> nl \<notin> set l \<and> l \<noteq> [] \<and> last l \<noteq> cr"
  shows "lines (join [nl] ls) = ls"
proof (cases "ls = []")
  case False
  have "map strip_cr (butlast ls) = butlast ls"
    using assms by (intro map_idI) (simp add: strip_cr_def in_set_butlastD)
  moreover have "split_on nl (join [nl] ls) = ls"
    using False assms by (intro split_on_join) auto
  moreover have "last ls \<noteq> []" using False assms by simp
  ultimately show ?thesis using False by (simp add: lines_def Let_def)
qed (simp add: lines_def)

definition entry :: "string \<Rightarrow> string \<Rightarrow> string" where
  "entry k v = k @ ''='' @ v"

lemma has_key_split:
  "split_once (CHR ''='') l = Some (k, v) \<Longrightarrow> has_key key l \<longleftrightarrow> trim k = key"
  by (drule split_once_SomeD) (auto simp: has_key_def)

lemma entry_facts:
  assumes "pref_key_ok k" and "pref_value_ok v"
  shows "split_once (CHR ''='') (entry k v) = Some (k, v)" and "nl \<notin> set (entry k v)"
    and "entry k v \<noteq> []" and "last (entry k v) \<noteq> cr" and "CHR ''='' \<in> set (entry k v)"
  using assms split_once_append [of "CHR ''=''" k v]
  by (auto simp: pref_key_ok_def pref_value_ok_def entry_def nl_def cr_def)

lemma set_key_lines:
  assumes "prefs_ok body" and "pref_key_ok k" and "pref_value_ok v"
  shows "lines (set_key body k v) =
           map (\<lambda>l. if has_key k l then entry k v else l) (lines body) @
           (if list_ex (has_key k) (lines body) then [] else [entry k v])"
  unfolding set_key_def entry_def [symmetric]
  using assms(1) entry_facts [OF assms(2,3)] lines_no_nl
  by (intro lines_join) (auto simp: prefs_ok_def list_all_iff split: if_splits)

lemma set_key_ok:
  "prefs_ok body \<Longrightarrow> pref_key_ok k \<Longrightarrow> pref_value_ok v \<Longrightarrow> prefs_ok (set_key body k v)"
  using entry_facts by (subst prefs_ok_def) (auto simp: set_key_lines prefs_ok_def list_all_iff)

lemma get_key_updated:
  assumes "list_all (\<lambda>l. CHR ''='' \<in> set l) ls" and "split_once (CHR ''='') e = Some (k, v)" and "trim k = k"
  shows "get_key_lines k (map (\<lambda>l. if has_key k l then e else l) ls @
           (if list_ex (has_key k) ls then [] else [e])) = Some (trim_matches quote (trim v))"
  using assms(1)
proof (induction ls)
  case (Cons l ls)
  then obtain a b where "split_once (CHR ''='') l = Some (a, b)"
    using split_once_obtain [of "CHR ''=''" l] by auto
  with Cons assms(2,3) show ?case by (auto simp: has_key_split)
qed (use assms in simp)

lemma get_key_kept:
  assumes "list_all (\<lambda>l. CHR ''='' \<in> set l) ls" and "split_once (CHR ''='') e = Some (k, v)" and "trim k = k"
    and "k' \<noteq> k"
  shows "get_key_lines k' (map (\<lambda>l. if has_key k l then e else l) ls @
           (if b then [] else [e])) = get_key_lines k' ls"
  using assms(1)
proof (induction ls)
  case (Cons l ls)
  then obtain a c where "split_once (CHR ''='') l = Some (a, c)"
    using split_once_obtain [of "CHR ''=''" l] by auto
  with Cons assms(2-4) show ?case by (auto simp: has_key_split)
qed (use assms in simp)

lemma prefs_ok_eq: "prefs_ok body \<Longrightarrow> list_all (\<lambda>l. CHR ''='' \<in> set l) (lines body)"
  by (simp add: prefs_ok_def list_all_iff)

interpretation prefs: keyed_store get_key set_key "\<lambda>v. trim_matches quote (trim v)"
  prefs_ok pref_key_ok pref_value_ok
proof unfold_locales
  fix body k v
  assume ok: "prefs_ok body" "pref_key_ok k" "pref_value_ok v"
  show "prefs_ok (set_key body k v)" using ok by (rule set_key_ok)
  show "get_key (set_key body k v) k = Some (trim_matches quote (trim v))"
    using ok get_key_updated [OF prefs_ok_eq [OF ok(1)] entry_facts(1) [OF ok(2,3)]]
    by (simp add: get_key_def set_key_lines pref_key_ok_def)
  show "get_key (set_key body k v) k' = get_key body k'" if "k' \<noteq> k" for k'
    using ok that get_key_kept [OF prefs_ok_eq [OF ok(1)] entry_facts(1) [OF ok(2,3)]]
    by (simp add: get_key_def set_key_lines pref_key_ok_def)
qed

section \<open>Properties\<close>

lemma keys_ok [simp]: "pref_key_ok mode_key" "pref_key_ok addr_key" "mode_key \<noteq> addr_key" "addr_key \<noteq> mode_key"
  by code_simp+

definition socks_addr :: "u16 \<Rightarrow> string" where
  "socks_addr port = ''127.0.0.1:'' @ show_word port @ ''@socks5''"

lemma socks_addr_graphic: "c \<in> set (socks_addr port) \<Longrightarrow> graphic c \<and> c \<noteq> CHR 0x22 \<and> c \<noteq> nl"
  using show_nat_digits [of c "unat port"]
  by (auto simp: socks_addr_def graphic_def is_digit_def nl_def)

lemma trim_matches_quoted:
  "CHR 0x22 \<notin> set s \<Longrightarrow> trim_matches quote (quote @ s @ quote) = s"
proof -
  assume s: "CHR 0x22 \<notin> set s"
  have e: "trim_end_matches quote (quote @ s @ quote) = trim_end_matches quote (quote @ s)"
    using trim_end_matches_snoc [of quote "quote @ s"] by (simp add: quote_def)
  show ?thesis
  proof (cases "s = []")
    case False
    have "last s \<noteq> CHR 0x22" using False s last_in_set by metis
    then have "trim_end_matches quote (quote @ s) = quote @ s"
      using False by (intro trim_end_matches_stuck) (simp_all add: quote_def ends_with_single)
    moreover have "strip_one [quote] (quote @ s) = Some s"
      by (simp add: strip_one_def quote_def starts_with_def)
    moreover have "strip_many [quote] s = s"
    proof (rule strip_many_stuck)
      have "\<not> starts_with s quote"
        using s False by (cases s) (auto simp: quote_def starts_with_def)
      then show "strip_one [quote] s = None"
        using strip_one_single [of quote s] by (simp add: quote_def)
    qed
    ultimately have "trim_start_matches quote (trim_end_matches quote (quote @ s)) = s"
      by (subst trim_start_matches_def, subst strip_many.simps) simp
    then show ?thesis by (simp only: trim_matches_def e)
  next
    case True
    have "trim_matches quote (quote @ [] @ quote) = []" by code_simp
    with True show ?thesis by simp
  qed
qed

lemma quoted_value:
  "pref_value_ok (quote @ socks_addr port @ quote)"
  "trim_matches quote (trim (quote @ socks_addr port @ quote)) = socks_addr port"
proof -
  show "pref_value_ok (quote @ socks_addr port @ quote)"
    using socks_addr_graphic [of nl port] by (auto simp: pref_value_ok_def quote_def nl_def cr_def)
  have "trim (quote @ socks_addr port @ quote) = quote @ socks_addr port @ quote"
    using socks_addr_graphic by (intro trim_all_graphic) (auto simp: quote_def graphic_def)
  then show "trim_matches quote (trim (quote @ socks_addr port @ quote)) = socks_addr port"
    using trim_matches_quoted [of "socks_addr port"] socks_addr_graphic by metis
qed

lemma mode_values:
  "pref_value_ok ''4''" "pref_value_ok ''0''"
  "trim_matches quote (trim ''4'') = ''4''" "trim_matches quote (trim ''0'') = ''0''"
  "parse_i32 ''4'' = Some 4" "parse_i32 ''0'' = Some 0"
  by code_simp+

lemma proxied_body_eq:
  "proxied_body port body = set_key (set_key body mode_key ''4'') addr_key (quote @ socks_addr port @ quote)"
  by (simp add: proxied_body_def socks_addr_def)

lemma proxied_keys:
  assumes "prefs_ok body"
  shows "get_key (proxied_body port body) mode_key = Some ''4''"
    and "get_key (proxied_body port body) addr_key = Some (socks_addr port)"
    and "pref_key_ok k \<Longrightarrow> k \<noteq> mode_key \<Longrightarrow> k \<noteq> addr_key \<Longrightarrow>
         get_key (proxied_body port body) k = get_key body k"
  using assms prefs.get_put_put [of body mode_key "''4''" addr_key "quote @ socks_addr port @ quote"]
  by (simp_all add: proxied_body_eq quoted_value mode_values prefs.get_put_other prefs.put_ok)

lemma socks_addr_parts:
  "split_once (CHR ''@'') (socks_addr port) = Some (''127.0.0.1:'' @ show_word port, ''socks5'')"
  "rsplit_once (CHR '':'') (''127.0.0.1:'' @ show_word port) = Some (''127.0.0.1'', show_word port)"
proof -
  have "CHR ''@'' \<notin> set (''127.0.0.1:'' @ show_word port)" "CHR '':'' \<notin> set (show_word port)"
    by (auto simp: is_digit_def dest: show_nat_digits)
  then show "split_once (CHR ''@'') (socks_addr port) = Some (''127.0.0.1:'' @ show_word port, ''socks5'')"
    "rsplit_once (CHR '':'') (''127.0.0.1:'' @ show_word port) = Some (''127.0.0.1'', show_word port)"
    using split_once_append [of "CHR ''@''" "''127.0.0.1:'' @ show_word port" "''socks5''"]
      rsplit_once_append [of "CHR '':''" "show_word port" "''127.0.0.1''"]
    by (simp_all add: socks_addr_def)
qed

lemma read_prefs_proxied:
  "prefs_ok body \<Longrightarrow>
   read_prefs (proxied_body port body) port s =
     s\<lparr>sf_found := True, sf_mode := 4, sf_addr := socks_addr port, sf_port := port,
       sf_points_at_us := True\<rparr>"
  by (simp add: read_prefs_def proxied_keys socks_addr_parts(1) socks_addr_parts(2) [simplified]
      mode_values mode_proxy_def eq_ignore_ascii_case_def)

text \<open>The only files that are written are the preferences and their backup.\<close>

lemma prefs_path_last:
  assumes "prefs_path appdata = Some p"
  shows "last p = ''prefs''" and "last (backup_path p) = ''prefs.splitstream.bak''"
  using assms by (auto simp: prefs_path_def path_join_def backup_path_def)

lemma spotify_frame:
  assumes "last q \<noteq> ''prefs''" and "last q \<noteq> ''prefs.splitstream.bak''"
  shows "spotify_apply env runs appdata port st = (r, st') \<Longrightarrow> st' q = st q"
    and "spotify_restore env appdata st = (r', st') \<Longrightarrow> st' q = st q"
proof -
  have other: "st2 q = st1 q"
    if "write_file env p body st1 = (x, st2)" "last p = ''prefs'' \<or> last p = ''prefs.splitstream.bak''" for p body st1 x st2
    using that assms write_file_frame [of q p env body st1] by auto
  show "spotify_apply env runs appdata port st = (r, st') \<Longrightarrow> st' q = st q"
    by (auto simp: spotify_apply_def copy_file_def prefs_path_last dest!: other
        split: if_splits sum.splits prod.splits option.splits)
  show "spotify_restore env appdata st = (r', st') \<Longrightarrow> st' q = st q"
    by (auto simp: spotify_restore_def prefs_path_last dest!: other
        split: if_splits sum.splits prod.splits option.splits)
qed

text \<open>
  (C25) Rewriting a key does what it says to a file of Spotify's own making: the key reads back as
  the value without its quotes, every other key reads as before, and the file keeps its form; so
  two keys written one after the other both read back.
\<close>

theorem set_key_get_key:
  assumes "prefs_ok body" and "pref_key_ok k" and "pref_value_ok v" and "pref_key_ok k'" and "k' \<noteq> k"
  shows "prefs_ok (set_key body k v) \<and>
         get_key (set_key body k v) k = Some (trim_matches quote (trim v)) \<and>
         get_key (set_key body k v) k' = get_key body k'"
  using assms by (simp add: prefs.put_ok prefs.get_put prefs.get_put_other)

theorem set_key_get_key_witness:
  "get_key (set_key (''a=1'' @ [nl] @ ''b=2'') ''a'' ''3'') ''a'' = Some ''3'' \<and>
   get_key (set_key (''a=1'' @ [nl] @ ''b=2'') ''a'' ''3'') ''b'' = Some ''2''"
proof -
  have "prefs_ok (''a=1'' @ [nl] @ ''b=2'')" "pref_key_ok ''a''" "pref_value_ok ''3''" "pref_key_ok ''b''"
    "trim_matches quote (trim ''3'') = ''3''" "get_key (''a=1'' @ [nl] @ ''b=2'') ''b'' = Some ''2''"
    by code_simp+
  then show ?thesis using set_key_get_key [of "''a=1'' @ [nl] @ ''b=2''" "''a''" "''3''" "''b''"] by simp
qed

text \<open>
  (C26) Connecting Spotify works and is verified: on a well-formed preferences file, when the files
  can be read and written, the state read back after \<^verbatim>\<open>apply\<close> says that Spotify points at our port,
  the file keeps every other key, and the backup holds what was there before the first change.
\<close>

theorem spotify_apply_points:
  assumes "prefs_path appdata = Some p" and "st p = Some body" and "prefs_ok body"
    and "read_error env p = None" and "write_end env p = WriteOk" and "write_end env (backup_path p) = WriteOk"
    and "backup_path p \<noteq> p"
  shows "\<exists>s st'. spotify_apply env runs appdata port st = (Ok s, st') \<and>
           sf_points_at_us s \<and> sf_mode s = 4 \<and> sf_port s = port \<and>
           st' p = Some (proxied_body port body) \<and>
           st' (backup_path p) = (case st (backup_path p) of None \<Rightarrow> Some body | Some b \<Rightarrow> Some b) \<and>
           (\<forall>k. pref_key_ok k \<longrightarrow> k \<notin> {mode_key, addr_key} \<longrightarrow>
              get_key (proxied_body port body) k = get_key body k)"
proof -
  have "read_to_string env p st = Ok body"
    using assms by (simp add: read_to_string_def)
  then show ?thesis
    using assms proxied_keys(3)
    by (cases "st (backup_path p)")
      (auto simp: spotify_apply_def path_exists_def copy_file_def write_file_ok spotify_state_def
        read_to_string_def read_prefs_proxied Let_def)
qed

definition sample_prefs :: store where
  "sample_prefs = (\<lambda>_. None)([''A'', ''Spotify'', ''prefs''] \<mapsto> ''core.clock=1'' @ [nl] @ ''network.proxy.mode=2'' @ [nl])"

theorem spotify_apply_points_witness:
  "\<exists>s st'. spotify_apply good_env (\<lambda>_. Err []) (Some [''A'']) 1080 sample_prefs = (Ok s, st') \<and> sf_points_at_us s"
proof -
  have "prefs_ok (''core.clock=1'' @ [nl] @ ''network.proxy.mode=2'' @ [nl])" by code_simp
  then show ?thesis
    using spotify_apply_points [of "Some [''A'']" "[''A'', ''Spotify'', ''prefs'']" sample_prefs
        "''core.clock=1'' @ [nl] @ ''network.proxy.mode=2'' @ [nl]" good_env "\<lambda>_. Err []" 1080]
    by (auto simp: prefs_path_def path_join_def sample_prefs_def backup_path_def)
qed

lemma get_key_blank: "get_key (nl # rest) key = None"
  using lines_first [of "[]" rest] by (simp add: get_key_def strip_cr_def)

lemma set_key_blank:
  assumes "key \<noteq> []"
  shows "\<exists>rest'. set_key (nl # rest) key value = nl # rest'"
proof -
  have "\<not> has_key key []" using assms by (simp add: has_key_def)
  moreover have "lines (nl # rest) = [] # lines rest"
    using lines_first [of "[]" rest] by (simp add: strip_cr_def)
  ultimately show ?thesis
    by (auto simp: set_key_def join_Cons simp del: split_on.simps)
qed

text \<open>
  A line without an equals sign hides what follows: reading a key gives up at the first such
  line, while writing goes on past it. On a file that begins with a blank line \<^verbatim>\<open>apply\<close> sets both keys
  and then reports that Spotify does not point at the tunnel.
\<close>

theorem blank_line_hides_keys:
  "get_key (nl # rest) key = None \<and>
   \<not> sf_points_at_us (read_prefs (proxied_body port (nl # rest)) port s) \<and>
   lines (proxied_body 1080 (nl # ''a=b'')) =
     [[], ''a=b'', ''network.proxy.mode=4'', ''network.proxy.addr='' @ quote @ ''127.0.0.1:1080@socks5'' @ quote]"
proof (intro conjI)
  obtain rest' where "proxied_body port (nl # rest) = nl # rest'"
    using set_key_blank [of mode_key rest "''4''"] set_key_blank [of addr_key]
    by (fastforce simp: proxied_body_eq mode_key_def addr_key_def)
  then show "\<not> sf_points_at_us (read_prefs (proxied_body port (nl # rest)) port s)"
    by (simp add: read_prefs_def get_key_blank mode_proxy_def)
  show "lines (proxied_body 1080 (nl # ''a=b'')) =
     [[], ''a=b'', ''network.proxy.mode=4'', ''network.proxy.addr='' @ quote @ ''127.0.0.1:1080@socks5'' @ quote]"
    by code_simp
qed (rule get_key_blank)

end
