(* ===== verification/Autostart.thy ===== *)
theory Autostart
  imports Files Process Rust_Text Utf8
begin

text \<open>
  \<^verbatim>\<open>autostart.rs\<close>, the start-up entry, and \<^verbatim>\<open>pageant.rs\<close>, the tools the tunnel may use. An operation
  that runs commands returns its result and the commands it ran, in order; what a command answers
  is the runner's.
\<close>

section \<open>Start-up entries\<close>

definition task_name :: string where "task_name = ''SplitStream''"
definition legacy_task :: string where "legacy_task = ''SplitTunnel''"

text \<open>\<^verbatim>\<open>HKCU\Software\Microsoft\Windows\CurrentVersion\Run\<close>, its parts joined with backslashes.\<close>

definition run_key :: string where
  "run_key = join [CHR 0x5C]
     [''HKCU'', ''Software'', ''Microsoft'', ''Windows'', ''CurrentVersion'', ''Run'']"

definition delete_task :: "string \<Rightarrow> command" where
  "delete_task name = (''schtasks'', [''/Delete'', ''/F'', ''/TN'', name])"

definition delete_run :: "string \<Rightarrow> command" where
  "delete_run name = (''reg'', [''delete'', run_key, ''/v'', name, ''/f''])"

definition purge_legacy :: "command list" where
  "purge_legacy = [delete_task legacy_task, delete_run legacy_task]"

definition launch_line :: "path \<Rightarrow> string" where
  "launch_line exe = [CHR 0x22] @ path_display exe @ [CHR 0x22] @ '' --minimised''"

definition create_task :: "path \<Rightarrow> command" where
  "create_task exe =
     (''schtasks'', [''/Create'', ''/F'', ''/SC'', ''ONLOGON'', ''/TN'', task_name,
                     ''/TR'', launch_line exe, ''/RL'', ''LIMITED''])"

definition add_run :: "path \<Rightarrow> command" where
  "add_run exe =
     (''reg'', [''add'', run_key, ''/v'', task_name, ''/t'', ''REG_SZ'', ''/d'', launch_line exe, ''/f''])"

definition both_refused :: string where
  "both_refused = ''This PC does not allow adding start-up items (both the Task Scheduler and the Run key were refused). Start SplitStream manually, or ask IT.''"

definition enable :: "runner \<Rightarrow> path \<Rightarrow> unit result \<times> command list" where
  "enable runs exe =
     (case runs (create_task exe) of
        Err e \<Rightarrow> (Err e, purge_legacy @ [create_task exe])
      | Ok out \<Rightarrow>
          if out_success out then (Ok (), purge_legacy @ [create_task exe])
          else
            (let err = trim (from_utf8_lossy (out_stderr out)) in
             if contains (to_lowercase err) ''access is denied'' then
               (case runs (add_run exe) of
                  Err e \<Rightarrow> (Err e, purge_legacy @ [create_task exe, add_run exe])
                | Ok run \<Rightarrow>
                    (if out_success run then Ok () else Err both_refused,
                     purge_legacy @ [create_task exe, add_run exe]))
             else (Err err, purge_legacy @ [create_task exe])))"

definition disable :: "unit result \<times> command list" where
  "disable = (Ok (), purge_legacy @ [delete_task task_name, delete_run task_name])"

definition succeeds :: "runner \<Rightarrow> command \<Rightarrow> bool" where
  "succeeds runs cmd = (case runs cmd of Ok out \<Rightarrow> out_success out | Err _ \<Rightarrow> False)"

definition is_enabled :: "runner \<Rightarrow> bool" where
  "is_enabled runs =
     (if succeeds runs (''schtasks'', [''/Query'', ''/TN'', task_name]) then True
      else succeeds runs (''reg'', [''query'', run_key, ''/v'', task_name]))"

section \<open>Pageant and the tools\<close>

definition pageant_running :: "runner \<Rightarrow> bool" where
  "pageant_running runs =
     (case runs (''tasklist'', [''/FI'', ''IMAGENAME eq pageant.exe'', ''/NH'']) of
        Ok out \<Rightarrow> contains (to_lowercase (from_utf8_lossy (out_stdout out))) ''pageant.exe''
      | Err _ \<Rightarrow> False)"

text \<open>Starting Pageant: the command spawned, if it is there; \<open>spawns\<close> says whether it starts.\<close>

definition pageant_start ::
    "(command \<Rightarrow> unit result) \<Rightarrow> store \<Rightarrow> path \<Rightarrow> path option \<Rightarrow> unit result" where
  "pageant_start spawns st exe key =
     (if \<not> path_exists exe st then Err (''bundled Pageant missing at '' @ path_display exe)
      else spawns (path_display exe, (case key of None \<Rightarrow> [] | Some k \<Rightarrow> [path_display k])))"

text \<open>A path from its text, split at the Windows separator.\<close>

definition path_of :: "string \<Rightarrow> path" where
  "path_of s = split_on (CHR 0x5C) s"

definition resolve_tool :: "runner \<Rightarrow> store \<Rightarrow> path \<Rightarrow> string \<Rightarrow> path" where
  "resolve_tool runs st bundled exe =
     (case runs (''where'', [exe]) of
        Err _ \<Rightarrow> path_join bundled exe
      | Ok out \<Rightarrow>
          if \<not> out_success out then path_join bundled exe
          else (case lines (from_utf8_lossy (out_stdout out)) of
                  [] \<Rightarrow> path_join bundled exe
                | first # _ \<Rightarrow>
                    if path_exists (path_of (trim first)) st then path_of (trim first)
                    else path_join bundled exe))"

section \<open>Properties\<close>

lemma resolve_tool_cases:
  "resolve_tool runs st bundled exe = path_join bundled exe \<or>
   path_exists (resolve_tool runs st bundled exe) st"
  by (auto simp: resolve_tool_def split: sum.splits list.splits)

text \<open>The entries a command creates or deletes: the scheduled task or the value of the Run key.\<close>

datatype entry_home = TaskEntry string | RunEntry string

fun creates :: "command \<Rightarrow> entry_home option" where
  "creates (prog, args) =
     (if prog = ''schtasks'' \<and> take 1 args = [''/Create''] then Some (TaskEntry (args ! 5))
      else if prog = ''reg'' \<and> take 2 args = [''add'', run_key] then Some (RunEntry (args ! 3))
      else None)"

fun deletes :: "command \<Rightarrow> entry_home option" where
  "deletes (prog, args) =
     (if prog = ''schtasks'' \<and> take 3 args = [''/Delete'', ''/F'', ''/TN''] then Some (TaskEntry (args ! 3))
      else if prog = ''reg'' \<and> take 2 args = [''delete'', run_key] then Some (RunEntry (args ! 3))
      else None)"

lemma creates_simps:
  "creates (delete_task n) = None" "creates (delete_run n) = None"
  "creates (create_task exe) = Some (TaskEntry task_name)"
  "creates (add_run exe) = Some (RunEntry task_name)"
  by (simp_all add: delete_task_def delete_run_def create_task_def add_run_def)

lemma deletes_simps:
  "deletes (delete_task n) = Some (TaskEntry n)" "deletes (delete_run n) = Some (RunEntry n)"
  by (simp_all add: delete_task_def delete_run_def)

lemma enable_commands:
  "take 2 (snd (enable runs exe)) = purge_legacy"
  "set (snd (enable runs exe)) \<subseteq>
     {delete_task legacy_task, delete_run legacy_task, create_task exe, add_run exe}"
  by (cases "runs (create_task exe)"; cases "runs (add_run exe)";
      simp add: enable_def Let_def purge_legacy_def)+

text \<open>
  Start-up entries do not pile up: \<^verbatim>\<open>enable\<close> reports success exactly when one of its two ways of
  adding an entry succeeded, always after deleting both homes of the old name, and \<^verbatim>\<open>disable\<close>
  deletes every entry that \<^verbatim>\<open>enable\<close> can have made, under whatever answers of the system.
\<close>

theorem autostart_symmetric:
  "(fst (enable runs exe) = Ok () \<longleftrightarrow>
      succeeds runs (create_task exe) \<or>
      (\<exists>out. runs (create_task exe) = Ok out \<and>
         contains (to_lowercase (trim (from_utf8_lossy (out_stderr out)))) ''access is denied'' \<and>
         succeeds runs (add_run exe))) \<and>
   take 2 (snd (enable runs exe)) = purge_legacy \<and>
   creates ` set (snd (enable runs exe)) - {None} \<subseteq> deletes ` set (snd disable)"
proof (intro conjI)
  show "fst (enable runs exe) = Ok () \<longleftrightarrow>
      succeeds runs (create_task exe) \<or>
      (\<exists>out. runs (create_task exe) = Ok out \<and>
         contains (to_lowercase (trim (from_utf8_lossy (out_stderr out)))) ''access is denied'' \<and>
         succeeds runs (add_run exe))"
    by (cases "runs (create_task exe)"; cases "runs (add_run exe)")
      (simp_all add: enable_def succeeds_def Let_def)
  show "take 2 (snd (enable runs exe)) = purge_legacy"
    by (rule enable_commands)
  have "creates ` {delete_task legacy_task, delete_run legacy_task, create_task exe, add_run exe} \<subseteq>
      {None, Some (TaskEntry task_name), Some (RunEntry task_name)}"
    by (simp only: image_insert image_empty creates_simps) simp
  then have created: "creates ` set (snd (enable runs exe)) \<subseteq>
      {None, Some (TaskEntry task_name), Some (RunEntry task_name)}"
    by (rule order_trans [OF image_mono [OF enable_commands(2)]])
  have "deletes (delete_task task_name) \<in> deletes ` set (snd disable)"
    "deletes (delete_run task_name) \<in> deletes ` set (snd disable)"
    by (rule imageI, simp add: disable_def)+
  then have "{Some (TaskEntry task_name), Some (RunEntry task_name)} \<subseteq> deletes ` set (snd disable)"
    by (simp only: deletes_simps) simp
  with created show "creates ` set (snd (enable runs exe)) - {None} \<subseteq> deletes ` set (snd disable)"
    by (simp only: Diff_subset_conv) (erule order_trans, simp add: subset_insertI2)
qed

end
