(* ===== verification/App.thy ===== *)
theory App
  imports Supervisor Enroll Spotify Autostart
begin

text \<open>
  The application state of \<^verbatim>\<open>main.rs\<close> and the commands the window calls: settings, discovery, renewing
  and clearing the enrollment, starting and stopping the tunnel. A command runs as one step here
  (\<^verbatim>\<open>stop\<close> as its four steps in a row); how the supervisor's threads interleave with it is
  \<^verbatim>\<open>Supervisor\<close>'s matter, how commands interleave with a sign-in \<^verbatim>\<open>Sign_In\<close>'s.
\<close>

section \<open>State and surroundings\<close>

datatype auth_state =
    SignedOut
  | Waiting device_prompt
  | Enrolling
  | SignedIn string u64
  | SignInFailed string

record app =
  ap_sys :: sys
  ap_dir :: path
  ap_bundled :: path
  ap_cfg :: config
  ap_auth :: auth_state
  ap_cancel :: bool
  ap_store :: store
  ap_last_good :: string
  ap_started :: "command list"

text \<open>\<open>ap_started\<close> lists the programs that were started for what they do to the system, oldest first.\<close>

text \<open>Everything the commands reach outside the sources.\<close>

record world =
  wd_io :: io_env
  wd_cfg_ser :: "config \<Rightarrow> string result"
  wd_cfg_de :: "string \<Rightarrow> config option"
  wd_tok_ser :: "tokens \<Rightarrow> string result"
  wd_tok_de :: "string \<Rightarrow> tokens option"
  wd_enr_ser :: "enrollment \<Rightarrow> string result"
  wd_enr_de :: "string \<Rightarrow> enrollment option"
  wd_json :: "u8 list \<Rightarrow> json option"
  wd_run :: runner
  wd_now :: u64
  wd_keygen :: keygen
  wd_user :: "string option"
  wd_sys :: sysenv
  wd_proxy :: "string \<Rightarrow> string option"
  wd_post :: "string agent \<Rightarrow> post"
  wd_service :: "string agent \<Rightarrow> service"
  wd_get :: "string agent \<Rightarrow> string \<Rightarrow> http_result"
  wd_resolve :: "string \<Rightarrow> u16 \<Rightarrow> nat list result"
  wd_connects :: "nat \<Rightarrow> bool"
  wd_appdata :: "path option"
  wd_system_root :: "string option"

definition app_agent :: "world \<Rightarrow> string \<Rightarrow> config \<Rightarrow> string \<Rightarrow> u64 \<Rightarrow> string agent" where
  "app_agent W slot cfg target secs =
     agent_for (wd_sys W) slot (wd_proxy W) (cfg_proxy cfg) target secs"

text \<open>\<^verbatim>\<open>sup.stop()\<close>, its steps without a worker's in between.\<close>

definition stop_now :: "sys \<Rightarrow> sys" where
  "stop_now y = run (stop_call (length (y_stoppers y))) y"

section \<open>Launch\<close>

definition initial_auth :: "world \<Rightarrow> path \<Rightarrow> store \<Rightarrow> auth_state" where
  "initial_auth W dir st =
     (case enrollment_load (wd_enr_de W) (wd_io W) dir st of
        Some r \<Rightarrow> if enrollment_is_valid (wd_now W) r then SignedIn (enr_identity r) (enr_expires_at r)
                  else SignedOut
      | None \<Rightarrow> SignedOut)"

definition launch_app :: "world \<Rightarrow> path \<Rightarrow> path \<Rightarrow> store \<Rightarrow> app" where
  "launch_app W dir bundled st =
     (let cfg = config_load (wd_cfg_de W) (wd_io W) dir st
      in \<lparr>ap_sys = sys_new, ap_dir = dir, ap_bundled = bundled, ap_cfg = cfg,
          ap_auth = initial_auth W dir st, ap_cancel = False, ap_store = st,
          ap_last_good = remember (cfg_proxy_last_good cfg) [],
          ap_started = []\<rparr>)"

section \<open>Settings and status\<close>

definition get_config :: "app \<Rightarrow> config" where
  "get_config a = ap_cfg a"

definition get_status :: "app \<Rightarrow> status" where
  "get_status a = sup_status (y_sup (ap_sys a))"

text \<open>The two halves of \<^verbatim>\<open>save_config\<close>: the file is written, then, under the lock, the settings are replaced.\<close>

definition save_write :: "world \<Rightarrow> config \<Rightarrow> app \<Rightarrow> unit result \<times> app" where
  "save_write W cfg a =
     (case config_save (wd_cfg_ser W) (wd_io W) (ap_dir a) cfg (ap_store a) of
        (r, st) \<Rightarrow> (r, a\<lparr>ap_store := st\<rparr>))"

definition set_config :: "config \<Rightarrow> app \<Rightarrow> app" where
  "set_config cfg a = a\<lparr>ap_cfg := cfg\<rparr>"

definition save_config :: "world \<Rightarrow> config \<Rightarrow> app \<Rightarrow> unit result \<times> app" where
  "save_config W cfg a =
     (case save_write W cfg a of
        (Err e, a1) \<Rightarrow> (Err e, a1)
      | (Ok _, a1) \<Rightarrow> (Ok (), set_config cfg a1))"

text \<open>
  \<^verbatim>\<open>discover\<close> works on the settings \<open>snapshot\<close> cloned when it began, and stores them whole after the
  request; \<open>a\<close> is the application when the reply has come.
\<close>

definition discovered :: "json \<Rightarrow> oidc" where
  "discovered v =
     \<lparr>oidc_issuer = str_field v ''issuer'', oidc_client_id = str_field v ''client_id'',
      oidc_resource = str_field v ''resource'', oidc_scope = str_field v ''scope'',
      oidc_scopes = str_field v ''scopes'',
      oidc_redirect_port = ucast (unwrap_or 0 (get_u64 ''redirect_port'' v))\<rparr>"

definition discover ::
    "world \<Rightarrow> (http_error \<Rightarrow> string) \<Rightarrow> string \<Rightarrow> config \<Rightarrow> app \<Rightarrow> oidc result \<times> app" where
  "discover W show_error base snapshot a =
     (let cfg = snapshot\<lparr>cfg_enroll_base := trim base\<rparr>; url = discovery_url cfg in
      if url = [] then (Err ''Enter the tunnel server address first.'', a)
      else
        case wd_get W (app_agent W (ap_last_good a) cfg url 20) url of
          Inl e \<Rightarrow> (Err (''cannot reach '' @ url @ '': '' @ show_error e), a)
        | Inr r \<Rightarrow>
        case resp_json r of
          Err e \<Rightarrow> (Err (''bad response from '' @ url @ '': '' @ e), a)
        | Ok v \<Rightarrow>
            if \<not> oidc_is_complete (discovered v)
            then (Err ''That server did not return a usable sign-in configuration.'', a)
            else
              case config_save (wd_cfg_ser W) (wd_io W) (ap_dir a)
                     (cfg\<lparr>cfg_oidc := discovered v\<rparr>) (ap_store a) of
                (Err e, st) \<Rightarrow> (Err e, a\<lparr>ap_store := st\<rparr>)
              | (Ok _, st) \<Rightarrow>
                  (Ok (discovered v), a\<lparr>ap_store := st, ap_cfg := cfg\<lparr>cfg_oidc := discovered v\<rparr>\<rparr>))"

section \<open>Renewing, resetting, signing out\<close>

definition no_refresh_msg :: string where
  "no_refresh_msg = ''no refresh token '' @ em_dash @ '' sign in again''"

definition app_enroll ::
    "world \<Rightarrow> string agent \<Rightarrow> path \<Rightarrow> config \<Rightarrow> tokens \<Rightarrow> store \<Rightarrow> enrollment result \<times> store" where
  "app_enroll W agent dir cfg t st =
     enroll (wd_enr_ser W) (wd_io W) (wd_keygen W) (wd_run W) (wd_user W) (wd_service W agent)
       (wd_now W) dir (enroll_url cfg) t st"

definition renew_quietly ::
    "world \<Rightarrow> string \<Rightarrow> path \<Rightarrow> config \<Rightarrow> store \<Rightarrow> enrollment result \<times> store" where
  "renew_quietly W slot dir cfg st =
     (case tokens_load (wd_tok_de W) (wd_io W) dir st of
        None \<Rightarrow> (Err ''not signed in'', st)
      | Some stored \<Rightarrow>
          if tok_refresh stored = [] then (Err no_refresh_msg, st)
          else
            let agent = app_agent W slot cfg (oidc_issuer (cfg_oidc cfg)) 20 in
            case refresh_tokens (wd_json W) (wd_post W agent) (wd_now W) (cfg_oidc cfg) (tok_refresh stored) of
              Err e \<Rightarrow> (Err e, st)
            | Ok fresh \<Rightarrow>
            case tokens_save (wd_tok_ser W) (wd_io W) dir fresh st of
              (Err e, st1) \<Rightarrow> (Err e, st1)
            | (Ok _, st1) \<Rightarrow> app_enroll W agent dir cfg fresh st1)"

definition renew :: "world \<Rightarrow> app \<Rightarrow> enrollment result \<times> app" where
  "renew W a =
     (case renew_quietly W (ap_last_good a) (ap_dir a) (ap_cfg a) (ap_store a) of
        (r, st) \<Rightarrow> (r, a\<lparr>ap_store := st\<rparr>))"

definition cancel_sign_in :: "app \<Rightarrow> app" where
  "cancel_sign_in a = a\<lparr>ap_cancel := True, ap_auth := SignedOut\<rparr>"

definition sign_out :: "world \<Rightarrow> app \<Rightarrow> app" where
  "sign_out W a =
     a\<lparr>ap_cancel := True, ap_sys := stop_now (ap_sys a),
       ap_store := clear (wd_io W) (ap_dir a) (tokens_forget (wd_io W) (ap_dir a) (ap_store a)),
       ap_auth := SignedOut\<rparr>"

definition reset_all :: "world \<Rightarrow> app \<Rightarrow> unit result \<times> app" where
  "reset_all W a =
     (let cfg = ap_cfg a; dir = ap_dir a; io = wd_io W;
          st1 = (if cfg_manage_spotify cfg then snd (spotify_restore io (wd_appdata W) (ap_store a))
                 else ap_store a);
          st2 = remove_file io (config_path dir) (clear io dir (tokens_forget io dir st1))
      in (Ok (), a\<lparr>ap_sys := stop_now (ap_sys a), ap_store := st2, ap_last_good := forget (ap_last_good a),
                   ap_cfg := default_config, ap_auth := SignedOut,
                   ap_started := ap_started a @ snd disable\<rparr>))"

section \<open>The tunnel\<close>

text \<open>The record the tunnel is to use, and what its renewal makes of the sign-in state.\<close>

definition current_record ::
    "world \<Rightarrow> string \<Rightarrow> path \<Rightarrow> config \<Rightarrow> store \<Rightarrow>
     (enrollment option \<times> auth_state option) result \<times> store" where
  "current_record W slot dir cfg st =
     (case enrollment_load (wd_enr_de W) (wd_io W) dir st of
        None \<Rightarrow> (Ok (None, None), st)
      | Some r \<Rightarrow>
          if enrollment_is_valid (wd_now W) r \<and> \<not> needs_renewal (wd_now W) r then (Ok (Some r, None), st)
          else
            case renew_quietly W slot dir cfg st of
              (Ok fresh, st1) \<Rightarrow> (Ok (Some fresh, None), st1)
            | (Err e, st1) \<Rightarrow>
                if enrollment_is_valid (wd_now W) r
                then (Ok (Some r, Some (SignInFailed (''renewal failed: '' @ e))), st1)
                else (Err (''certificate expired and renewal failed: '' @ e), st1))"

definition wants_relay :: "world \<Rightarrow> config \<Rightarrow> enrollment \<Rightarrow> bool" where
  "wants_relay W cfg r =
     (if cfg_transport cfg = ''relay'' then True
      else if cfg_transport cfg = ''direct'' then False
      else \<not> tcp_reachable (wd_resolve W (enr_host r) (enr_port r)) (wd_connects W))"

definition choose_relay ::
    "world \<Rightarrow> string \<Rightarrow> path \<Rightarrow> config \<Rightarrow> enrollment \<Rightarrow> store \<Rightarrow> relay option result" where
  "choose_relay W slot bundled cfg r st =
     (if wants_relay W cfg r \<and> enr_ws_url r \<noteq> [] then
        let ws_exe = resolve_tool (wd_run W) st bundled ''wstunnel.exe'' in
        if \<not> path_exists ws_exe st
        then Err (''the server is only reachable through the WebSocket relay, but wstunnel was not found at ''
                  @ path_display ws_exe)
        else Ok (Some (relay_new ws_exe (enr_ws_url r) (enr_ws_target r) (cfg_relay_port cfg)
                   (pi_url (detect_for (wd_sys W) slot (cfg_proxy cfg) (enr_ws_url r)))))
      else if wants_relay W cfg r
      then Err ''Cannot reach the tunnel server, and it offers no WebSocket relay to fall back to.''
      else Ok None)"

definition manual_transport :: "world \<Rightarrow> path \<Rightarrow> config \<Rightarrow> store \<Rightarrow> transport result" where
  "manual_transport W bundled cfg st =
     (if \<not> config_is_complete cfg then Err ''Sign in, or set the server host, port and username.''
      else
        let plink = resolve_tool (wd_run W) st bundled ''plink.exe'' in
        if \<not> path_exists plink st then Err (''plink not found at '' @ path_display plink)
        else Ok (Plink plink))"

text \<open>
  Pageant is started for the manual key when none is running; that it cannot start is ignored.
\<close>

definition pageant_commands :: "world \<Rightarrow> path \<Rightarrow> config \<Rightarrow> store \<Rightarrow> command list" where
  "pageant_commands W bundled cfg st =
     (if config_is_complete cfg \<and> \<not> pageant_running (wd_run W) \<and> trim (cfg_key_path cfg) \<noteq> [] then
        let ag = resolve_tool (wd_run W) st bundled ''pageant.exe'' in
        if path_exists ag st then [(path_display ag, [cfg_key_path cfg])] else []
      else [])"

definition with_record :: "enrollment \<Rightarrow> config \<Rightarrow> config" where
  "with_record r cfg = cfg\<lparr>cfg_host := enr_host r, cfg_port := enr_port r, cfg_user := enr_user r\<rparr>"

text \<open>The last lines of \<^verbatim>\<open>start_tunnel\<close>: the supervisor is started and Spotify pointed at the port.\<close>

definition launch_tunnel :: "world \<Rightarrow> transport \<Rightarrow> config \<Rightarrow> relay option \<Rightarrow> app \<Rightarrow> app" where
  "launch_tunnel W t cfg via a =
     a\<lparr>ap_sys := start t cfg via (ap_sys a),
       ap_store := (if cfg_manage_spotify cfg
                    then snd (spotify_apply (wd_io W) (wd_run W) (wd_appdata W) (cfg_local_port cfg) (ap_store a))
                    else ap_store a)\<rparr>"

definition start_tunnel :: "world \<Rightarrow> app \<Rightarrow> unit result \<times> app" where
  "start_tunnel W a =
     (let cfg = ap_cfg a; dir = ap_dir a in
      case current_record W (ap_last_good a) dir cfg (ap_store a) of
        (Err e, st) \<Rightarrow> (Err e, a\<lparr>ap_store := st\<rparr>)
      | (Ok (record, auth), st) \<Rightarrow>
          let a1 = a\<lparr>ap_store := st, ap_auth := unwrap_or (ap_auth a) auth\<rparr> in
          case record of
            Some r \<Rightarrow>
              (let cfg1 = with_record r cfg;
                   guard = with_record r (ap_cfg a1);
                   st1 = snd (config_save (wd_cfg_ser W) (wd_io W) dir guard st);
                   a2 = a1\<lparr>ap_cfg := guard, ap_store := st1\<rparr> in
               case choose_relay W (ap_last_good a) (ap_bundled a) cfg1 r st1 of
                 Err e \<Rightarrow> (Err e, a2)
               | Ok via \<Rightarrow>
                   (Ok (), launch_tunnel W
                      (OpenSsh (openssh_path (wd_system_root W) st1) (key_path dir) (known_hosts_path dir))
                      cfg1 via a2))
          | None \<Rightarrow>
              let a2 = a1\<lparr>ap_started := ap_started a @ pageant_commands W (ap_bundled a) cfg st\<rparr> in
              case manual_transport W (ap_bundled a) cfg st of
                Err e \<Rightarrow> (Err e, a2)
              | Ok t \<Rightarrow> (Ok (), launch_tunnel W t cfg None a2))"

text \<open>What \<^verbatim>\<open>stop_tunnel\<close> does when \<^verbatim>\<open>sup.stop()\<close> has returned.\<close>

definition after_stop :: "world \<Rightarrow> app \<Rightarrow> app" where
  "after_stop W a =
     (if cfg_manage_spotify (ap_cfg a)
      then a\<lparr>ap_store := snd (spotify_restore (wd_io W) (wd_appdata W) (ap_store a))\<rparr> else a)"

definition stop_tunnel :: "world \<Rightarrow> app \<Rightarrow> unit result \<times> app" where
  "stop_tunnel W a = (Ok (), after_stop W (a\<lparr>ap_sys := stop_now (ap_sys a)\<rparr>))"

section \<open>Facts about the commands\<close>

lemma no_starts_stop_call: "e \<in> set (stop_call n) \<Longrightarrow> \<not> is_start e"
  by (auto simp: stop_call_def)

lemma stop_now_effect:
  "y_sup (stop_now y) = (take_relay (take_child ((y_sup y)\<lparr>s_running := False\<rparr>)))\<lparr>s_status := Stopped\<rparr> \<and>
   y_workers (stop_now y) = y_workers y"
  by (simp add: stop_now_def stop_call_def eval_nat_numeral nth_append)

lemma config_save_frame:
  "q \<noteq> config_path dir \<Longrightarrow> snd (config_save ser env dir c st) q = st q"
  by (simp add: config_save_def write_file_frame split: sum.split)

lemma tokens_save_frame:
  "q \<noteq> tokens_path dir \<Longrightarrow> snd (tokens_save ser env dir t st) q = st q"
  by (simp add: tokens_save_def write_file_frame split: sum.split)

lemma app_paths [simp]:
  "cert_path d \<noteq> config_path d" "cert_path d \<noteq> tokens_path d" "config_path d \<noteq> tokens_path d"
  "enrollment_path d \<noteq> config_path d" "enrollment_path d \<noteq> tokens_path d"
  by (simp_all add: path_defs config_path_def tokens_path_def)

lemma enroll_refused:
  assumes "trim url \<noteq> []" and "generate_key env kg runs user dir st = (Ok public, st1)"
    and "service_reply (service (trim url) (''Bearer '' @ tok_access tokens)
           (JObj [(''id_token'', JStr (tok_id tokens)), (''public_key'', JStr public)])) = Err e"
  shows "enroll ser env kg runs user service now dir url tokens st = (Err e, st1)"
  using assms by (simp add: enroll_def)

lemma start_when_stopped:
  "\<not> s_running (y_sup y) \<Longrightarrow>
   y_workers (start t cfg via y) = y_workers y @ [new_worker t cfg via] \<and>
   s_running (y_sup (start t cfg via y))"
  by (simp add: start_def)

lemma start_tunnel_with_record:
  assumes "current_record W (ap_last_good a) (ap_dir a) (ap_cfg a) (ap_store a) = (Ok (Some r, auth), st)"
    and "start_tunnel W a = (Ok (), a')"
  shows "\<exists>exe via st1. exe = openssh_path (wd_system_root W) st1 \<and> st1 = snd (config_save (wd_cfg_ser W) (wd_io W) (ap_dir a) (with_record r (ap_cfg a)) st) \<and>
           choose_relay W (ap_last_good a) (ap_bundled a) (with_record r (ap_cfg a)) r st1 = Ok via \<and>
           a' = launch_tunnel W (OpenSsh exe (key_path (ap_dir a)) (known_hosts_path (ap_dir a)))
                  (with_record r (ap_cfg a)) via
                  (a\<lparr>ap_auth := unwrap_or (ap_auth a) auth, ap_cfg := with_record r (ap_cfg a), ap_store := st1\<rparr>)"
  using assms
  by (cases "choose_relay W (ap_last_good a) (ap_bundled a) (with_record r (ap_cfg a)) r
        (snd (config_save (wd_cfg_ser W) (wd_io W) (ap_dir a) (with_record r (ap_cfg a)) st))")
    (auto simp: start_tunnel_def Let_def)

lemma choose_relay_wanted:
  "choose_relay W slot bundled cfg r st = Ok via \<Longrightarrow> (via \<noteq> None \<longleftrightarrow> wants_relay W cfg r)"
  by (auto simp: choose_relay_def Let_def split: if_splits)

section \<open>Properties\<close>

text \<open>
  (C18) With a certificate that needs no renewal, a tunnel that starts uses it and goes where the
  server said: one worker is added, with OpenSSH, the enrolled key and the pinned host keys, to the
  host, port and user of the record, through a relay exactly when one is wanted; and the settings
  take over the host, port and user.
\<close>

theorem start_tunnel_uses_record:
  assumes "enrollment_load (wd_enr_de W) (wd_io W) (ap_dir a) (ap_store a) = Some r"
    and "enrollment_is_valid (wd_now W) r" and "\<not> needs_renewal (wd_now W) r"
    and "\<not> s_running (y_sup (ap_sys a))" and "start_tunnel W a = (Ok (), a')"
  shows "\<exists>exe via. y_workers (ap_sys a') = y_workers (ap_sys a) @
             [new_worker (OpenSsh exe (key_path (ap_dir a)) (known_hosts_path (ap_dir a)))
                (with_record r (ap_cfg a)) via] \<and>
           s_running (y_sup (ap_sys a')) \<and>
           (via \<noteq> None \<longleftrightarrow> wants_relay W (with_record r (ap_cfg a)) r) \<and>
           ap_cfg a' = with_record r (ap_cfg a) \<and>
           dial_address None (ap_cfg a') = (enr_host r, enr_port r)"
proof -
  have "current_record W (ap_last_good a) (ap_dir a) (ap_cfg a) (ap_store a) = (Ok (Some r, None), ap_store a)"
    using assms(1-3) by (simp add: current_record_def)
  from start_tunnel_with_record [OF this assms(5)] obtain exe via st1
    where via: "choose_relay W (ap_last_good a) (ap_bundled a) (with_record r (ap_cfg a)) r st1 = Ok via"
      and a': "a' = launch_tunnel W (OpenSsh exe (key_path (ap_dir a)) (known_hosts_path (ap_dir a)))
                  (with_record r (ap_cfg a)) via
                  (a\<lparr>ap_auth := unwrap_or (ap_auth a) None, ap_cfg := with_record r (ap_cfg a), ap_store := st1\<rparr>)"
    by blast
  have "ap_cfg a' = with_record r (ap_cfg a)"
    "ap_sys a' = start (OpenSsh exe (key_path (ap_dir a)) (known_hosts_path (ap_dir a)))
       (with_record r (ap_cfg a)) via (ap_sys a)"
    by (simp_all add: a' launch_tunnel_def)
  moreover have "dial_address None (with_record r (ap_cfg a)) = (enr_host r, enr_port r)"
    by (simp add: dial_address_def with_record_def)
  ultimately show ?thesis
    using start_when_stopped [OF assms(4)] choose_relay_wanted [OF via] by auto
qed

definition sample_record :: enrollment where
  "sample_record = \<lparr>enr_identity = ''a@b'', enr_host = ''t.example.com'', enr_port = 2223,
     enr_user = ''tunnel'', enr_host_fingerprint = [], enr_expires_at = 50000, enr_serial = 1,
     enr_ws_url = [], enr_ws_target = []\<rparr>"

definition sample_world :: "u64 \<Rightarrow> world" where
  "sample_world now =
     \<lparr>wd_io = good_env, wd_cfg_ser = (\<lambda>_. Ok ''cfg''), wd_cfg_de = (\<lambda>_. None),
      wd_tok_ser = (\<lambda>_. Ok ''tok''), wd_tok_de = (\<lambda>_. Some sample_tokens),
      wd_enr_ser = (\<lambda>_. Ok ''enr''), wd_enr_de = (\<lambda>_. Some sample_record), wd_json = (\<lambda>_. None),
      wd_run = quiet_runner, wd_now = now, wd_keygen = sample_keygen, wd_user = None,
      wd_sys = managed_pc, wd_proxy = (\<lambda>_. None), wd_post = (\<lambda>_. refresh_reply),
      wd_service = (\<lambda>_ _ _ _. Inl (TransportError ''timed out'')),
      wd_get = (\<lambda>_ _. Inr (Response 200 (Ok (JObj
        [(''issuer'', JStr ''https://id''), (''client_id'', JStr ''app'')])))),
      wd_resolve = (\<lambda>_ _. Ok [0]), wd_connects = (\<lambda>_. True), wd_appdata = None, wd_system_root = None\<rparr>"

definition sample_app :: app where
  "sample_app = launch_app (sample_world 100) [''d''] [''b'']
     ((\<lambda>_. None)(enrollment_path [''d''] \<mapsto> ''enr'', tokens_path [''d''] \<mapsto> ''tok'',
                 cert_path [''d''] \<mapsto> ''CERT''))"

theorem start_tunnel_uses_record_witness:
  "\<exists>exe via. y_workers (ap_sys (snd (start_tunnel (sample_world 100) sample_app))) =
     [new_worker (OpenSsh exe (key_path [''d'']) (known_hosts_path [''d'']))
        (with_record sample_record default_config) via]"
proof -
  have "enrollment_load (wd_enr_de (sample_world 100)) (wd_io (sample_world 100)) (ap_dir sample_app)
      (ap_store sample_app) = Some sample_record"
    "enrollment_is_valid (wd_now (sample_world 100)) sample_record"
    "\<not> needs_renewal (wd_now (sample_world 100)) sample_record"
    "\<not> s_running (y_sup (ap_sys sample_app))" "fst (start_tunnel (sample_world 100) sample_app) = Ok ()"
    "ap_dir sample_app = [''d'']" "ap_cfg sample_app = default_config" "y_workers (ap_sys sample_app) = []"
    by code_simp+
  then show ?thesis
    using start_tunnel_uses_record [of "sample_world 100" sample_app sample_record
        "snd (start_tunnel (sample_world 100) sample_app)"]
    by (metis append_Nil prod.collapse)
qed

text \<open>
  (C29) The fallback of a failed renewal has nothing to fall back to. When a record that is still
  valid is due for renewal, the session refreshes and the enrollment service then refuses, the
  tunnel is started on the old record as intended, with the key and no certificate beside it.
\<close>

theorem failed_renewal_starts_without_certificate:
  assumes "enrollment_load (wd_enr_de W) (wd_io W) (ap_dir a) (ap_store a) = Some r"
    and "enrollment_is_valid (wd_now W) r" and "needs_renewal (wd_now W) r"
    and "tokens_load (wd_tok_de W) (wd_io W) (ap_dir a) (ap_store a) = Some stored" and "tok_refresh stored \<noteq> []"
    and "agent = app_agent W (ap_last_good a) (ap_cfg a) (oidc_issuer (cfg_oidc (ap_cfg a))) 20"
    and "refresh_tokens (wd_json W) (wd_post W agent) (wd_now W) (cfg_oidc (ap_cfg a)) (tok_refresh stored) = Ok fresh"
    and "tokens_save (wd_tok_ser W) (wd_io W) (ap_dir a) fresh (ap_store a) = (Ok (), st1)"
    and "trim (enroll_url (ap_cfg a)) \<noteq> []"
    and "generate_key (wd_io W) (wd_keygen W) (wd_run W) (wd_user W) (ap_dir a) st1 = (Ok public, st2)"
    and "service_reply (wd_service W agent (trim (enroll_url (ap_cfg a))) (''Bearer '' @ tok_access fresh)
           (JObj [(''id_token'', JStr (tok_id fresh)), (''public_key'', JStr public)])) = Err e"
    and "remove_ok (wd_io W) (cert_path (ap_dir a))" and "\<not> cfg_manage_spotify (ap_cfg a)"
    and "\<not> s_running (y_sup (ap_sys a))" and "start_tunnel W a = (Ok (), a')"
  shows "ap_auth a' = SignInFailed (''renewal failed: '' @ e) \<and>
         ap_store a' (cert_path (ap_dir a)) = None \<and>
         (\<exists>exe via. y_workers (ap_sys a') = y_workers (ap_sys a) @
            [new_worker (OpenSsh exe (key_path (ap_dir a)) (known_hosts_path (ap_dir a)))
               (with_record r (ap_cfg a)) via])"
proof -
  have "renew_quietly W (ap_last_good a) (ap_dir a) (ap_cfg a) (ap_store a) = (Err e, st2)"
    using assms(4-11) by (simp add: renew_quietly_def app_enroll_def Let_def enroll_refused)
  then have "current_record W (ap_last_good a) (ap_dir a) (ap_cfg a) (ap_store a) =
      (Ok (Some r, Some (SignInFailed (''renewal failed: '' @ e))), st2)"
    using assms(1-3) by (simp add: current_record_def)
  from start_tunnel_with_record [OF this assms(15)] obtain exe via st3
    where st3: "st3 = snd (config_save (wd_cfg_ser W) (wd_io W) (ap_dir a) (with_record r (ap_cfg a)) st2)"
      and a': "a' = launch_tunnel W (OpenSsh exe (key_path (ap_dir a)) (known_hosts_path (ap_dir a)))
                  (with_record r (ap_cfg a)) via
                  (a\<lparr>ap_auth := SignInFailed (''renewal failed: '' @ e),
                     ap_cfg := with_record r (ap_cfg a), ap_store := st3\<rparr>)"
    by auto
  have "st2 (cert_path (ap_dir a)) = None"
    using generate_key_OkD [OF assms(10)] assms(12) by (auto simp: remove_file_def)
  then have "st3 (cert_path (ap_dir a)) = None"
    unfolding st3 by (simp add: config_save_frame)
  then show ?thesis
    using assms(13) start_when_stopped [OF assms(14)]
    by (auto simp: a' launch_tunnel_def with_record_def)
qed

definition renewing_app :: app where
  "renewing_app = sample_app\<lparr>ap_cfg := default_config\<lparr>cfg_enroll_base := ''e.example.com''\<rparr>\<rparr>"

theorem failed_renewal_starts_without_certificate_witness:
  "ap_store renewing_app (cert_path [''d'']) = Some ''CERT'' \<and>
   ap_store (snd (start_tunnel (sample_world 49000) renewing_app)) (cert_path [''d'']) = None"
proof -
  let ?W = "sample_world 49000" and ?a = "renewing_app"
  let ?agent = "app_agent ?W (ap_last_good ?a) (ap_cfg ?a) (oidc_issuer (cfg_oidc (ap_cfg ?a))) 20"
  let ?fresh = "\<lparr>tok_access = ''at'', tok_id = [], tok_refresh = ''rt'', tok_expires_at = 52600, tok_email = []\<rparr>"
  let ?save = "tokens_save (wd_tok_ser ?W) (wd_io ?W) (ap_dir ?a) ?fresh (ap_store ?a)"
  let ?gen = "generate_key (wd_io ?W) (wd_keygen ?W) (wd_run ?W) (wd_user ?W) (ap_dir ?a) (snd ?save)"
  have f: "enrollment_load (wd_enr_de ?W) (wd_io ?W) (ap_dir ?a) (ap_store ?a) = Some sample_record"
    "enrollment_is_valid (wd_now ?W) sample_record" "needs_renewal (wd_now ?W) sample_record"
    "tokens_load (wd_tok_de ?W) (wd_io ?W) (ap_dir ?a) (ap_store ?a) = Some sample_tokens"
    "tok_refresh sample_tokens \<noteq> []" by code_simp+
  have refresh: "refresh_tokens (wd_json ?W) (wd_post ?W ?agent) (wd_now ?W) (cfg_oidc (ap_cfg ?a))
      (tok_refresh sample_tokens) = Ok ?fresh" by code_simp
  have "fst ?save = Ok ()" "fst ?gen = Ok ''ssh-ed25519 AAAA''" "fst (start_tunnel ?W ?a) = Ok ()"
    by code_simp+
  then have pairs: "?save = (Ok (), snd ?save)" "?gen = (Ok ''ssh-ed25519 AAAA'', snd ?gen)"
    "start_tunnel ?W ?a = (Ok (), snd (start_tunnel ?W ?a))" by (metis prod.collapse)+
  have url: "trim (enroll_url (ap_cfg ?a)) \<noteq> []" by code_simp
  have reply: "service_reply (wd_service ?W ?agent (trim (enroll_url (ap_cfg ?a))) (''Bearer '' @ tok_access ?fresh)
      (JObj [(''id_token'', JStr (tok_id ?fresh)), (''public_key'', JStr ''ssh-ed25519 AAAA'')])) =
      Err (''cannot reach the enrollment service: timed out'')"
    by (simp add: sample_world_def service_reply_def)
  have g: "remove_ok (wd_io ?W) (cert_path (ap_dir ?a))" "\<not> cfg_manage_spotify (ap_cfg ?a)"
    "\<not> s_running (y_sup (ap_sys ?a))" by code_simp+
  have "ap_dir ?a = [''d'']" "ap_store ?a (cert_path [''d'']) = Some ''CERT''" by code_simp+
  then show ?thesis
    using failed_renewal_starts_without_certificate
      [OF f(1-5) refl refresh pairs(1) url pairs(2) reply g pairs(3)] by simp
qed

text \<open>
  (C21) A reset is a first run: when the files can be removed, launching again on what is left finds
  the default settings and nobody signed in, nothing else has been removed, the supervisor has
  been told to stop, with both process slots empty, and the commands that delete the start-up
  entries have been run.
\<close>

theorem reset_is_first_run:
  assumes "\<forall>q. remove_ok (wd_io W) q" and "reset_all W a = (Ok (), a')"
  shows "ap_cfg (launch_app W (ap_dir a) bundled (ap_store a')) = default_config \<and>
         ap_auth (launch_app W (ap_dir a) bundled (ap_store a')) = SignedOut \<and>
         tokens_load (wd_tok_de W) (wd_io W) (ap_dir a) (ap_store a') = None \<and>
         ap_cfg a' = default_config \<and> ap_auth a' = SignedOut \<and> ap_last_good a' = [] \<and>
         (\<forall>q. q \<notin> {tokens_path (ap_dir a), config_path (ap_dir a), key_path (ap_dir a),
                    cert_path (ap_dir a), known_hosts_path (ap_dir a), public_key_path (ap_dir a),
                    enrollment_path (ap_dir a)} \<longrightarrow> Some q \<noteq> prefs_path (wd_appdata W) \<longrightarrow>
              ap_store a' q = ap_store a q) \<and>
         s_status (y_sup (ap_sys a')) = Stopped \<and> \<not> s_running (y_sup (ap_sys a')) \<and>
         s_child (y_sup (ap_sys a')) = None \<and> s_relay (y_sup (ap_sys a')) = None \<and>
         ap_started a' = ap_started a @ snd disable"
proof -
  let ?st1 = "if cfg_manage_spotify (ap_cfg a) then snd (spotify_restore (wd_io W) (wd_appdata W) (ap_store a))
              else ap_store a"
  have restored: "?st1 q = ap_store a q" if "Some q \<noteq> prefs_path (wd_appdata W)" for q
    using that by (auto simp: spotify_restore_def write_file_frame split: option.split sum.split)
  have store: "ap_store a' = remove_file (wd_io W) (config_path (ap_dir a))
      (clear (wd_io W) (ap_dir a) (tokens_forget (wd_io W) (ap_dir a) ?st1))"
    and rest: "ap_cfg a' = default_config" "ap_auth a' = SignedOut" "ap_last_good a' = []"
      "ap_sys a' = stop_now (ap_sys a)" "ap_started a' = ap_started a @ snd disable"
    using assms(2) by (auto simp: reset_all_def Let_def forget_def)
  have gone: "ap_store a' q = (if q \<in> {tokens_path (ap_dir a), config_path (ap_dir a), key_path (ap_dir a),
      cert_path (ap_dir a), known_hosts_path (ap_dir a), public_key_path (ap_dir a),
      enrollment_path (ap_dir a)} then None else ?st1 q)" for q
    unfolding store clear_apply [OF assms(1)] tokens_forget_def remove_file_def using assms(1) by simp
  show ?thesis
    using gone restored rest stop_now_effect [of "ap_sys a"]
    by (simp add: launch_app_def config_load_def initial_auth_def enrollment_load_def tokens_load_def
        read_to_string_def Let_def)
qed

theorem reset_is_first_run_witness:
  "ap_auth (launch_app (sample_world 100) [''d''] [''b''] (ap_store (snd (reset_all (sample_world 100) sample_app))))
     = SignedOut \<and> ap_auth sample_app = SignedIn ''a@b'' 50000"
proof -
  have ok: "\<forall>q. remove_ok (wd_io (sample_world 100)) q" by (simp add: sample_world_def)
  have "ap_dir sample_app = [''d'']" "ap_auth sample_app = SignedIn ''a@b'' 50000" by code_simp+
  moreover have "reset_all (sample_world 100) sample_app = (Ok (), snd (reset_all (sample_world 100) sample_app))"
    by (simp add: reset_all_def Let_def)
  ultimately show ?thesis using reset_is_first_run [OF ok, of sample_app _ "[''b'']"] by simp
qed

text \<open>
  Discovery undoes what is saved meanwhile: it stores the settings it cloned before the
  request, so after a change saved while the request is under way has been confirmed, a successful
  discovery puts every other setting back to what it was.
\<close>

theorem discover_overwrites_settings:
  assumes "save_config W cfg a = (Ok (), a1)" and "discover W show base (ap_cfg a) a1 = (Ok s, a2)"
  shows "ap_cfg a1 = cfg \<and> ap_cfg a2 = (ap_cfg a)\<lparr>cfg_enroll_base := trim base, cfg_oidc := s\<rparr>"
  using assms
  by (auto simp: save_config_def save_write_def set_config_def discover_def Let_def split: sum.splits prod.splits if_splits)

theorem discover_overwrites_settings_witness:
  "\<exists>a1 a2 s. save_config (sample_world 100) (default_config\<lparr>cfg_local_port := 9050\<rparr>) sample_app = (Ok (), a1) \<and>
     discover (sample_world 100) (\<lambda>_. []) ''t.example.com'' (ap_cfg sample_app) a1 = (Ok s, a2) \<and>
     cfg_local_port (ap_cfg a1) = 9050 \<and> cfg_local_port (ap_cfg a2) = 1080"
proof -
  let ?W = "sample_world 100" and ?cfg = "default_config\<lparr>cfg_local_port := 9050\<rparr>"
  let ?a1 = "snd (save_config ?W ?cfg sample_app)"
  let ?d = "discover ?W (\<lambda>_. []) ''t.example.com'' (ap_cfg sample_app) ?a1"
  let ?s = "\<lparr>oidc_issuer = ''https://id'', oidc_client_id = ''app'', oidc_resource = [], oidc_scope = [],
     oidc_scopes = [], oidc_redirect_port = 0\<rparr>"
  have "fst (save_config ?W ?cfg sample_app) = Ok ()" "fst ?d = Ok ?s" "cfg_local_port (ap_cfg sample_app) = 1080"
    by code_simp+
  then have "save_config ?W ?cfg sample_app = (Ok (), ?a1)"
    "discover ?W (\<lambda>_. []) ''t.example.com'' (ap_cfg sample_app) ?a1 = (Ok ?s, snd ?d)"
    by (metis prod.collapse)+
  then show ?thesis
    using discover_overwrites_settings [of ?W ?cfg sample_app ?a1 "\<lambda>_. []" "''t.example.com''" ?s "snd ?d"]
      \<open>cfg_local_port (ap_cfg sample_app) = 1080\<close>
    by (intro exI [of _ ?a1] exI [of _ "snd ?d"] exI [of _ ?s]) simp
qed

end
