(* ===== verification/Client_Apps.thy ===== *)
theory Client_Apps
  imports Utf8 Rust_Text "HOL-Library.Multiset"
begin

text \<open>
  \<^verbatim>\<open>connected_apps\<close> of \<^verbatim>\<open>tunnel.rs\<close>: the programs that hold connections to the local listener, from
  the output of \<^verbatim>\<open>netstat\<close> and \<^verbatim>\<open>tasklist\<close>. The order in which a \<^verbatim>\<open>HashMap\<close> is walked is not
  specified, and a parameter of the model.
\<close>

record client_app =
  ca_name :: string
  ca_pid :: u32
  ca_connections :: u32
  ca_ports :: "u16 list"

definition established :: string where
  "established = ''ESTABLISHED''"

text \<open>One line of \<^verbatim>\<open>netstat\<close>: the process and the port of a connection to the listener.\<close>

definition holder_of :: "u16 \<Rightarrow> string \<Rightarrow> (u32 \<times> u16) option" where
  "holder_of local_port line =
     (let f = words line in
      if \<not> contains line established then None
      else if length f < 5 \<or> f ! 2 \<noteq> ''127.0.0.1:'' @ show_word local_port then None
      else case parse_u32 (f ! 4) of
             None \<Rightarrow> None
           | Some pid \<Rightarrow>
               Some (pid, (case parse_u16 (last (split_on (CHR '':'') (f ! 1))) of
                             Some p \<Rightarrow> p | None \<Rightarrow> 0)))"

text \<open>\<^verbatim>\<open>by_pid.entry(pid).or_default().push(port)\<close>, the map as a list in order of insertion.\<close>

fun push_port :: "u32 \<times> u16 \<Rightarrow> (u32 \<times> u16 list) list \<Rightarrow> (u32 \<times> u16 list) list" where
  "push_port (pid, port) [] = [(pid, [port])]"
| "push_port (pid, port) ((q, ports) # m) =
     (if q = pid then (q, ports @ [port]) # m else (q, ports) # push_port (pid, port) m)"

definition by_pid :: "u16 \<Rightarrow> string \<Rightarrow> (u32 \<times> u16 list) list" where
  "by_pid local_port out =
     fold push_port (List.map_filter (holder_of local_port) (lines out)) []"

definition task_of :: "string \<Rightarrow> (u32 \<times> string) option" where
  "task_of line =
     (let cols = split_str [CHR 0x22, CHR '','', CHR 0x22] line in
      if length cols < 2 then None
      else case parse_u32 (trim (trim_matches [CHR 0x22] (cols ! 1))) of
             None \<Rightarrow> None
           | Some pid \<Rightarrow> Some (pid, trim_matches [CHR 0x22] (cols ! 0)))"

definition task_names :: "string \<Rightarrow> u32 \<Rightarrow> string option" where
  "task_names out = fold (\<lambda>(pid, name) m. m(pid \<mapsto> name)) (List.map_filter task_of (lines out)) (\<lambda>_. None)"

definition client_of :: "(u32 \<Rightarrow> string option) \<Rightarrow> u32 \<times> u16 list \<Rightarrow> client_app" where
  "client_of names = (\<lambda>(pid, ports).
     \<lparr>ca_name = (case names pid of Some n \<Rightarrow> n | None \<Rightarrow> ''PID '' @ show_word pid),
      ca_pid = pid, ca_connections = of_nat (length ports), ca_ports = sort ports\<rparr>)"

definition connected_apps ::
    "((u32 \<times> u16 list) list \<Rightarrow> (u32 \<times> u16 list) list) \<Rightarrow> string option \<Rightarrow> string option \<Rightarrow> u16 \<Rightarrow>
     client_app list" where
  "connected_apps walk netstat tasklist local_port =
     (case netstat of
        None \<Rightarrow> []
      | Some out \<Rightarrow>
          (let holders = by_pid local_port (from_utf8_lossy out);
               names = task_names (case tasklist of None \<Rightarrow> [] | Some t \<Rightarrow> from_utf8_lossy t)
           in if holders = [] then []
              else sort_key (\<lambda>a. - uint (ca_connections a))
                     (map (client_of names) (walk holders))))"

section \<open>The map of holders\<close>

abbreviation ports_of :: "u32 \<Rightarrow> (u32 \<times> u16) list \<Rightarrow> u16 list" where
  "ports_of pid hs \<equiv> map snd (filter (\<lambda>h. fst h = pid) hs)"

lemma push_port_keys:
  "fst ` set (push_port h m) = insert (fst h) (fst ` set m) \<and>
   (distinct (map fst m) \<longrightarrow> distinct (map fst (push_port h m)))"
  by (induction h m rule: push_port.induct) auto

lemma push_port_lookup:
  "map_of (push_port h m) q =
     (if q = fst h then Some ((case map_of m q of None \<Rightarrow> [] | Some ps \<Rightarrow> ps) @ [snd h])
      else map_of m q)"
  by (induction h m rule: push_port.induct) auto

lemma fold_push_port:
  "distinct (map fst (fold push_port hs [])) \<and>
   fst ` set (fold push_port hs []) = fst ` set hs \<and>
   map_of (fold push_port hs []) q =
     (if q \<in> fst ` set hs then Some (ports_of q hs) else None)"
proof (induction hs rule: rev_induct)
  case (snoc h hs)
  have none: "q \<notin> fst ` set hs \<Longrightarrow> ports_of q hs = []"
    by (auto simp: filter_empty_conv)
  show ?case
    using snoc none push_port_keys [of h "fold push_port hs []"]
    by (auto simp: push_port_lookup)
qed simp

lemma by_pid_entry:
  "(pid, ports) \<in> set (by_pid lp out) \<Longrightarrow>
   ports = ports_of pid (List.map_filter (holder_of lp) (lines out))"
  using fold_push_port [of "List.map_filter (holder_of lp) (lines out)" pid]
  by (auto simp: by_pid_def dest!: map_of_is_SomeI [rotated] split: if_splits)

lemma by_pid_keys:
  "distinct (map fst (by_pid lp out)) \<and>
   fst ` set (by_pid lp out) = fst ` set (List.map_filter (holder_of lp) (lines out))"
  using fold_push_port by (simp add: by_pid_def)

lemma client_of_simps [simp]:
  "ca_pid (client_of names h) = fst h" "ca_ports (client_of names h) = sort (snd h)"
  "ca_connections (client_of names h) = of_nat (length (snd h))"
  by (simp_all add: client_of_def case_prod_beta)

lemma connected_apps_Some:
  assumes "mset (walk (by_pid lp (from_utf8_lossy out))) = mset (by_pid lp (from_utf8_lossy out))"
  shows "mset (connected_apps walk (Some out) tasks lp) =
           mset (map (client_of (task_names (case tasks of None \<Rightarrow> [] | Some t \<Rightarrow> from_utf8_lossy t)))
             (by_pid lp (from_utf8_lossy out)))"
  using assms by (simp add: connected_apps_def Let_def mset_map)

text \<open>
  (C24) The list shows exactly the processes that hold an established connection to the listener,
  each once, with the ports of all its connections in ascending order and their number, the
  busiest first; in whatever order the map is walked.
\<close>

theorem connected_apps_correct:
  assumes "\<forall>m. mset (walk m) = mset m"
  shows "distinct (map ca_pid (connected_apps walk (Some out) tasks lp)) \<and>
         ca_pid ` set (connected_apps walk (Some out) tasks lp) =
           fst ` set (List.map_filter (holder_of lp) (lines (from_utf8_lossy out))) \<and>
         (\<forall>a \<in> set (connected_apps walk (Some out) tasks lp).
            ca_ports a = sort (ports_of (ca_pid a)
              (List.map_filter (holder_of lp) (lines (from_utf8_lossy out)))) \<and>
            ca_connections a = of_nat (length (ca_ports a))) \<and>
         sorted_wrt (\<lambda>a b. ca_connections b \<le> ca_connections a)
           (connected_apps walk (Some out) tasks lp)"
proof -
  let ?apps = "connected_apps walk (Some out) tasks lp"
  let ?m = "by_pid lp (from_utf8_lossy out)"
  obtain names where apps: "mset ?apps = mset (map (client_of names) ?m)"
    using connected_apps_Some assms by blast
  then have set: "set ?apps = client_of names ` set ?m"
    by (metis set_mset_mset set_map)
  have "mset (map ca_pid ?apps) = mset (map fst ?m)"
    using apps by (simp add: mset_map image_mset.compositionality o_def)
  then have "distinct (map ca_pid ?apps)"
    using by_pid_keys by (metis mset_eq_imp_distinct_iff)
  moreover have "ca_pid ` set ?apps = fst ` set ?m" by (simp add: set image_image)
  moreover have "sorted_wrt (\<lambda>a b. ca_connections b \<le> ca_connections a) ?apps"
  proof -
    have "sorted_wrt (\<lambda>a b. ca_connections b \<le> ca_connections a)
        (sort_key (\<lambda>a. - uint (ca_connections a)) xs)" for xs :: "client_app list"
      using sorted_sort_key [of "\<lambda>a. - uint (ca_connections a)" xs]
      by (simp add: sorted_map word_le_def)
    then show ?thesis by (simp add: connected_apps_def Let_def)
  qed
  ultimately show ?thesis
    using by_pid_keys by (auto simp: set dest: by_pid_entry)
qed

definition sample_netstat :: string where
  "sample_netstat =
     ''  TCP    127.0.0.1:1080   127.0.0.1:50001  ESTABLISHED  900'' @ [nl] @
     ''  TCP    127.0.0.1:50002  127.0.0.1:1080   ESTABLISHED  42'' @ [nl] @
     ''  TCP    127.0.0.1:50001  127.0.0.1:1080   ESTABLISHED  42'' @ [nl]"

theorem connected_apps_correct_witness:
  "map ca_pid (connected_apps (\<lambda>m. m) (Some sample_netstat) None 1080) = [42] \<and>
   distinct (map ca_pid (connected_apps (\<lambda>m. m) (Some sample_netstat) None 1080)) \<and>
   map ca_ports (connected_apps (\<lambda>m. m) (Some sample_netstat) None 1080) = [[50001, 50002]]"
proof (intro conjI)
  show "distinct (map ca_pid (connected_apps (\<lambda>m. m) (Some sample_netstat) None 1080))"
    using connected_apps_correct [of "\<lambda>m. m" sample_netstat None 1080] by blast
  have ascii: "from_utf8_lossy sample_netstat = sample_netstat"
    by (intro from_utf8_lossy_valid valid_utf8_ascii) (simp add: sample_netstat_def ascii_def nl_def)
  have holders: "by_pid 1080 sample_netstat = [(42, [50002, 50001])]" by code_simp
  have "map (\<lambda>a. (ca_pid a, ca_ports a)) (sort_key (\<lambda>a. - uint (ca_connections a))
      (map (client_of (task_names [])) [(42, [50002, 50001])])) = [(42, [50001, 50002])]"
    by code_simp
  then have "map (\<lambda>a. (ca_pid a, ca_ports a)) (connected_apps (\<lambda>m. m) (Some sample_netstat) None 1080) =
      [(42, [50001, 50002])]"
    by (simp add: connected_apps_def Let_def ascii holders)
  then show "map ca_pid (connected_apps (\<lambda>m. m) (Some sample_netstat) None 1080) = [42]"
    "map ca_ports (connected_apps (\<lambda>m. m) (Some sample_netstat) None 1080) = [[50001, 50002]]" by auto
qed

end
