(* ===== verification/Commands.thy ===== *)
theory Commands
  imports App Client_Apps
begin

text \<open>
  The remaining commands of \<^verbatim>\<open>main.rs\<close>: the probe of the enrollment server, which also remembers a
  proxy that works, the reports, and the thin commands over the other modules.
\<close>

section \<open>Probing the server\<close>

record server_probe =
  pb_reachable :: bool
  pb_detail :: string
  pb_raw :: string
  pb_issuer :: string
  pb_cert_ttl :: string

definition probe_fail :: "string \<Rightarrow> string \<Rightarrow> server_probe" where
  "probe_fail detail raw =
     \<lparr>pb_reachable = False, pb_detail = detail, pb_raw = raw, pb_issuer = [], pb_cert_ttl = []\<rparr>"

definition probe_hint :: "proxy_info \<Rightarrow> string \<Rightarrow> string" where
  "probe_hint proxy m =
     (let lower = to_lowercase m in
      if contains lower ''dns'' \<or> contains lower ''resolve''
      then ''Address not found '' @ em_dash @ '' check the spelling''
      else if contains lower ''certificate'' \<or> contains lower ''tls'' \<or> contains lower ''handshake''
      then ''HTTPS certificate problem''
      else if pi_url proxy = [] \<and> pi_pac proxy \<noteq> []
      then ''No response. This PC uses an automatic proxy script that this app cannot read ''
           @ em_dash @ '' open Manual setup and enter the proxy address''
      else if pi_url proxy = []
      then ''No response '' @ em_dash
           @ '' the server may be down, or this network may need a proxy (set one under Manual setup)''
      else ''No response via proxy '' @ pi_url proxy)"

text \<open>A proxy that carried the probe is remembered for this run and, if new, in the settings.\<close>

definition remember_proxy :: "world \<Rightarrow> proxy_info \<Rightarrow> app \<Rightarrow> app" where
  "remember_proxy W proxy a =
     (if pi_url proxy = [] then a
      else
        let a1 = a\<lparr>ap_last_good := remember (pi_url proxy) (ap_last_good a)\<rparr> in
        if cfg_proxy_last_good (ap_cfg a1) = pi_url proxy then a1
        else
          let cfg = (ap_cfg a1)\<lparr>cfg_proxy_last_good := pi_url proxy\<rparr> in
          a1\<lparr>ap_cfg := cfg,
             ap_store := snd (config_save (wd_cfg_ser W) (wd_io W) (ap_dir a1) cfg (ap_store a1))\<rparr>)"

definition check_server :: "world \<Rightarrow> string \<Rightarrow> app \<Rightarrow> server_probe \<times> app" where
  "check_server W base a =
     (let cfg = (ap_cfg a)\<lparr>cfg_enroll_base := trim base\<rparr>; url = discovery_url cfg in
      if url = [] then (probe_fail ''No address entered'' [], a)
      else
        let proxy = detect_for (wd_sys W) (ap_last_good a) (cfg_proxy cfg) url in
        case wd_get W (app_agent W (ap_last_good a) cfg url 12) url of
          Inr r \<Rightarrow>
            (case resp_json r of
               Ok v \<Rightarrow>
                 if str_field v ''client_id'' = [] \<or> str_field v ''issuer'' = []
                 then (probe_fail ''Reachable, but not configured for sign-in'' [], a)
                 else
                   (\<lparr>pb_reachable = True, pb_detail = ''Online'', pb_raw = [],
                     pb_issuer = hd (split_on (CHR ''/'') (replace_str ''https://'' [] (str_field v ''issuer''))),
                     pb_cert_ttl = str_field v ''cert_ttl''\<rparr>,
                    remember_proxy W proxy a)
             | Err e \<Rightarrow> (probe_fail ''Something answered, but it is not a tunnel server'' e, a))
        | Inl (StatusError r) \<Rightarrow>
            (if resp_status r = 404
             then probe_fail ''Reached the host, but no tunnel server there (404)'' ''HTTP 404''
             else probe_fail (''Server answered HTTP '' @ show_word (resp_status r))
                    (''HTTP '' @ show_word (resp_status r)), a)
        | Inl (TransportError m) \<Rightarrow> (probe_fail (probe_hint proxy m) m, a))"

section \<open>Reports\<close>

text \<open>The fields of the JSON object \<^verbatim>\<open>diagnostics\<close> returns.\<close>

record diagnosis =
  dg_version :: string
  dg_config_dir :: string
  dg_enroll_base :: string
  dg_enroll_url :: string
  dg_discovery_url :: string
  dg_oidc_issuer :: string
  dg_oidc_client_id :: string
  dg_oidc_scopes :: string
  dg_proxy :: string
  dg_proxy_setting :: string
  dg_transport_mode :: string
  dg_relay_port :: u16
  dg_ssh_path :: string
  dg_ssh_found :: bool
  dg_have_key :: bool
  dg_have_cert :: bool
  dg_have_known_hosts :: bool
  dg_have_tokens :: bool
  dg_enrollment :: "enrollment option"

definition diagnostics :: "world \<Rightarrow> string \<Rightarrow> app \<Rightarrow> diagnosis" where
  "diagnostics W version a =
     (let cfg = ap_cfg a; st = ap_store a; dir = ap_dir a; ssh = openssh_path (wd_system_root W) st in
      \<lparr>dg_version = version, dg_config_dir = path_display dir, dg_enroll_base = cfg_enroll_base cfg,
       dg_enroll_url = enroll_url cfg, dg_discovery_url = discovery_url cfg,
       dg_oidc_issuer = oidc_issuer (cfg_oidc cfg), dg_oidc_client_id = oidc_client_id (cfg_oidc cfg),
       dg_oidc_scopes = oidc_scopes (cfg_oidc cfg),
       dg_proxy = proxy_describe (detect_for (wd_sys W) (ap_last_good a) (cfg_proxy cfg) (discovery_url cfg)),
       dg_proxy_setting = cfg_proxy cfg, dg_transport_mode = cfg_transport cfg,
       dg_relay_port = cfg_relay_port cfg, dg_ssh_path = path_display ssh, dg_ssh_found = path_exists ssh st,
       dg_have_key = path_exists (key_path dir) st, dg_have_cert = path_exists (cert_path dir) st,
       dg_have_known_hosts = path_exists (known_hosts_path dir) st,
       dg_have_tokens = tokens_load (wd_tok_de W) (wd_io W) dir st \<noteq> None,
       dg_enrollment = enrollment_load (wd_enr_de W) (wd_io W) dir st\<rparr>)"

definition network_test :: "world \<Rightarrow> netenv \<Rightarrow> app \<Rightarrow> check list" where
  "network_test W net a =
     connectivity_report (wd_sys W) (ap_last_good a) net
       (hd (split_on (CHR ''/'')
          (replace_str ''http://'' [] (replace_str ''https://'' [] (enroll_base_url (ap_cfg a))))))
       (cfg_port (ap_cfg a)) (cfg_proxy (ap_cfg a))"

text \<open>The tools in use: plink, Pageant, ssh, and whether an ssh is to be had.\<close>

definition tool_paths :: "world \<Rightarrow> app \<Rightarrow> string \<times> string \<times> string \<times> bool" where
  "tool_paths W a =
     (let ssh = openssh_path (wd_system_root W) (ap_store a) in
      (path_display (resolve_tool (wd_run W) (ap_store a) (ap_bundled a) ''plink.exe''),
       path_display (resolve_tool (wd_run W) (ap_store a) (ap_bundled a) ''pageant.exe''),
       path_display ssh, path_exists ssh (ap_store a) \<or> ssh = [''ssh'']))"

section \<open>Thin commands\<close>

definition spotify_state_command :: "world \<Rightarrow> app \<Rightarrow> spotify_report" where
  "spotify_state_command W a =
     spotify_state (wd_io W) (wd_run W) (wd_appdata W) (ap_store a) (cfg_local_port (ap_cfg a))"

definition spotify_apply_command :: "world \<Rightarrow> app \<Rightarrow> spotify_report result \<times> app" where
  "spotify_apply_command W a =
     (case spotify_apply (wd_io W) (wd_run W) (wd_appdata W) (cfg_local_port (ap_cfg a)) (ap_store a) of
        (r, st) \<Rightarrow> (r, a\<lparr>ap_store := st\<rparr>))"

definition connected_apps_command ::
    "((u32 \<times> u16 list) list \<Rightarrow> (u32 \<times> u16 list) list) \<Rightarrow> string option \<Rightarrow> string option \<Rightarrow> app \<Rightarrow> client_app list" where
  "connected_apps_command walk netstat tasklist a =
     connected_apps walk netstat tasklist (cfg_local_port (ap_cfg a))"

text \<open>The answer of the local port is an argument of the health check.\<close>

definition socks_ok :: "(u16 \<Rightarrow> socks_peer) \<Rightarrow> app \<Rightarrow> bool" where
  "socks_ok peer a = socks_healthy (peer (cfg_local_port (ap_cfg a)))"

definition auth_state_command :: "app \<Rightarrow> auth_state" where
  "auth_state_command a = ap_auth a"

definition enrollment_command :: "world \<Rightarrow> app \<Rightarrow> enrollment option" where
  "enrollment_command W a = enrollment_load (wd_enr_de W) (wd_io W) (ap_dir a) (ap_store a)"

definition spotify_restore_command :: "world \<Rightarrow> app \<Rightarrow> unit result \<times> app" where
  "spotify_restore_command W a =
     (case spotify_restore (wd_io W) (wd_appdata W) (ap_store a) of (r, st) \<Rightarrow> (r, a\<lparr>ap_store := st\<rparr>))"

definition autostart_enabled :: "runner \<Rightarrow> bool" where
  "autostart_enabled runs = is_enabled runs"

text \<open>The commands run by \<^verbatim>\<open>enable\<close> and \<^verbatim>\<open>disable\<close> are what the command does; then the entry is looked up.\<close>

definition set_autostart :: "runner \<Rightarrow> path result \<Rightarrow> bool \<Rightarrow> app \<Rightarrow> bool result \<times> app" where
  "set_autostart runs exe enabled a =
     (case exe of
        Err e \<Rightarrow> (Err e, a)
      | Ok p \<Rightarrow>
          (case (if enabled then enable runs p else disable) of
             (r, cmds) \<Rightarrow>
               (case r of Err e \<Rightarrow> Err e | Ok _ \<Rightarrow> Ok (is_enabled runs),
                a\<lparr>ap_started := ap_started a @ cmds\<rparr>)))"

definition pageant_running_command :: "world \<Rightarrow> bool" where
  "pageant_running_command W = pageant_running (wd_run W)"

definition system_accent :: "(bool \<times> string) option \<Rightarrow> string option" where
  "system_accent query = windows_accent query"

definition app_version :: "string \<Rightarrow> string" where
  "app_version version = version"

section \<open>Properties\<close>

lemma remember_proxy_effect:
  assumes "trim (pi_url proxy) = pi_url proxy" and "pi_url proxy \<noteq> []"
  shows "ap_last_good (remember_proxy W proxy a) = pi_url proxy \<and>
         cfg_proxy_last_good (ap_cfg (remember_proxy W proxy a)) = pi_url proxy"
  using assms by (simp add: remember_proxy_def remember_def Let_def)

lemma check_server_reachable:
  assumes "check_server W base a = (pb, a')" and "pb_reachable pb"
  shows "a' = remember_proxy W (detect_for (wd_sys W) (ap_last_good a) (cfg_proxy (ap_cfg a))
           (discovery_url ((ap_cfg a)\<lparr>cfg_enroll_base := trim base\<rparr>))) a"
  using assms
  by (auto simp: check_server_def probe_fail_def Let_def
      split: if_splits sum.splits http_error.splits)

text \<open>
  (C38) A proxy that let the probe through is kept for the day none can be detected: after a probe
  that reports Online over a proxy, a detection that finds nothing by itself ends with that proxy,
  for any target, and so does one after a restart from the settings as they now are.
\<close>

theorem probe_remembers_proxy:
  assumes "check_server W base a = (pb, a')" and "pb_reachable pb"
    and "proxy = pi_url (detect_for (wd_sys W) (ap_last_good a) (cfg_proxy (ap_cfg a))
           (discovery_url ((ap_cfg a)\<lparr>cfg_enroll_base := trim base\<rparr>)))" and "proxy \<noteq> []"
    and "pi_url (detect sys ov) = []" and "system_proxy_for sys target = None"
  shows "pi_url (detect_for sys (ap_last_good a') ov target) = proxy \<and>
         pi_url (detect_for sys (remember (cfg_proxy_last_good (ap_cfg a')) []) ov target) = proxy"
proof -
  obtain v where v: "proxy = normalise v"
    using detect_for_normalised assms(3,4) by metis
  have "ap_last_good a' = proxy" "cfg_proxy_last_good (ap_cfg a') = proxy"
    using remember_proxy_effect assms(3,4) check_server_reachable [OF assms(1,2)] normalise_trim [of v]
    by (simp_all flip: v)
  then show ?thesis
    using assms(4-6) normalise_idem [of v] normalise_trim [of v]
    by (simp add: detect_for_def last_good_def remember_def Let_def flip: v)
qed

theorem probe_remembers_proxy_witness:
  "pi_url (detect_for \<lparr>env_var = (\<lambda>_. None), reg_query = (\<lambda>_. None), powershell = (\<lambda>_. None)\<rparr>
     (ap_last_good (snd (check_server (sample_world 100) ''t.example.com'' sample_app))) [] ''https://x'')
     = ''http://old.corp:8080''"
proof -
  let ?W = "sample_world 100" and ?silent = "\<lparr>env_var = (\<lambda>_. None), reg_query = (\<lambda>_. None), powershell = (\<lambda>_. None)\<rparr>"
  let ?c = "check_server ?W ''t.example.com'' sample_app"
  have c: "?c = (fst ?c, snd ?c)" by simp
  have ok: "pb_reachable (fst ?c)" by code_simp
  have proxy: "''http://old.corp:8080'' = pi_url (detect_for (wd_sys ?W) (ap_last_good sample_app)
       (cfg_proxy (ap_cfg sample_app))
       (discovery_url ((ap_cfg sample_app)\<lparr>cfg_enroll_base := trim ''t.example.com''\<rparr>)))"
    by code_simp
  have silent: "pi_url (detect ?silent []) = []" "system_proxy_for ?silent ''https://x'' = None"
    by code_simp+
  show ?thesis
    by (rule probe_remembers_proxy [OF c ok proxy _ silent, THEN conjunct1]) simp
qed

end
