(* ===== verification/Sign_In.thy ===== *)
theory Sign_In
  imports App
begin

text \<open>
  The sign-in of \<^verbatim>\<open>main.rs\<close> with the threads it has: the command that starts it and the background
  thread that waits for the user and enrols, the command that cancels it, and the one that signs
  out. They share the sign-in state, the cancel flag and the files; \<open>sg_opened\<close> lists the addresses the
  browser was sent to. They are cut at every access to
  the state and the flag and, for the files, between the parts of an enrollment: the generation of a
  key, the request, and the installation of the reply are one step each, as is a removal. What the
  user, the provider and the service do is the answer that comes with a step; how
  \<^verbatim>\<open>auth::poll\<close> and \<^verbatim>\<open>auth::await_code\<close> arrive at it is the matter of \<^verbatim>\<open>Auth\<close>.
  A round of waiting can break before it looks at the flag (no port to listen on, the time is up)
  and after (a refusal).
\<close>

section \<open>Threads\<close>

text \<open>
  The program points: of a sign-in (its command, then its thread), of \<^verbatim>\<open>cancel_sign_in\<close>, and of
  \<^verbatim>\<open>sign_out\<close>. \<open>Refused\<close> is a sign-in whose command returned an error.
\<close>

datatype task_pc =
    Prepare
  | ShowPrompt device_prompt | ClearFlag
  | AwaitUser | AskProvider | SaveTokens tokens
  | ShowEnrolling tokens | MakeKey tokens | AskService tokens string | Install tokens json
  | ShowSignedIn string u64 | ShowFailed string
  | CancelFlag | CancelShow
  | OutFlag | OutStop | OutTokens | OutClear | OutShow
  | Over | Refused string

record task =
  tk_pc :: task_pc
  tk_cfg :: config

record signin =
  sg_auth :: auth_state
  sg_cancel :: bool
  sg_store :: store
  sg_opened :: "string list"
  sg_tasks :: "task list"

text \<open>
  The answers: the prompt the provider gives (device flow), the random values (redirect flow), what
  one round of waiting brings, and the reply of the enrollment service.
\<close>

datatype round = Pending | Broken string | Granted tokens

record reply =
  rp_begin :: "device_prompt result"
  rp_pkce :: pkce
  rp_round :: round
  rp_service :: http_result

definition redirect_prompt :: "config \<Rightarrow> pkce \<Rightarrow> device_prompt" where
  "redirect_prompt cfg p =
     (let s = cfg_oidc cfg; url = authorize_url s (redirect_uri (oidc_redirect_port s)) p in
      \<lparr>dp_user_code = [], dp_verification_uri = url, dp_verification_uri_complete = url,
       dp_expires_in = 300, dp_device_code = [], dp_interval = 1\<rparr>)"

definition not_configured_msg :: string where
  "not_configured_msg = ''Enter the tunnel server address and press Connect account first.''"

text \<open>What the user is asked to do: by redirect if the server names a port, else by device code.\<close>

definition prompt_for :: "config \<Rightarrow> reply \<Rightarrow> device_prompt result" where
  "prompt_for cfg rp =
     (if \<not> oidc_is_complete (cfg_oidc cfg) then Err not_configured_msg
      else if 0 < oidc_redirect_port (cfg_oidc cfg) then Ok (redirect_prompt cfg (rp_pkce rp))
      else rp_begin rp)"

text \<open>Whose name is shown: the service's, or the email of the token.\<close>

definition shown_email :: "tokens \<Rightarrow> enrollment \<Rightarrow> string" where
  "shown_email t r = (if enr_identity r = [] then tok_email t else enr_identity r)"

definition task_step :: "world \<Rightarrow> path \<Rightarrow> reply \<Rightarrow> task \<Rightarrow> signin \<Rightarrow> task_pc \<times> signin" where
  "task_step W dir rp k s =
     (case tk_pc k of
        Prepare \<Rightarrow>
          (case prompt_for (tk_cfg k) rp of
             Err e \<Rightarrow> (Refused e, s)
           | Ok p \<Rightarrow>
               (ShowPrompt p, s\<lparr>sg_opened := sg_opened s @ [dp_verification_uri_complete p]\<rparr>))
      | ShowPrompt p \<Rightarrow> (ClearFlag, s\<lparr>sg_auth := Waiting p\<rparr>)
      | ClearFlag \<Rightarrow> (AwaitUser, s\<lparr>sg_cancel := False\<rparr>)
      | AwaitUser \<Rightarrow>
          (case rp_round rp of
             Broken e \<Rightarrow> ShowFailed e
           | _ \<Rightarrow> if sg_cancel s then ShowFailed sign_in_cancelled else AskProvider, s)
      | AskProvider \<Rightarrow>
          (case rp_round rp of
             Pending \<Rightarrow> AwaitUser | Broken e \<Rightarrow> ShowFailed e | Granted t \<Rightarrow> SaveTokens t, s)
      | SaveTokens t \<Rightarrow>
          (case tokens_save (wd_tok_ser W) (wd_io W) dir t (sg_store s) of
             (Err e, st) \<Rightarrow> (ShowFailed e, s\<lparr>sg_store := st\<rparr>)
           | (Ok _, st) \<Rightarrow> (ShowEnrolling t, s\<lparr>sg_store := st\<rparr>))
      | ShowEnrolling t \<Rightarrow> (MakeKey t, s\<lparr>sg_auth := Enrolling\<rparr>)
      | MakeKey t \<Rightarrow>
          if trim (enroll_url (tk_cfg k)) = [] then (ShowFailed no_url_msg, s)
          else
            (case generate_key (wd_io W) (wd_keygen W) (wd_run W) (wd_user W) dir (sg_store s) of
               (Err e, st) \<Rightarrow> (ShowFailed e, s\<lparr>sg_store := st\<rparr>)
             | (Ok public, st) \<Rightarrow> (AskService t public, s\<lparr>sg_store := st\<rparr>))
      | AskService t public \<Rightarrow>
          (case service_reply (rp_service rp) of
             Err e \<Rightarrow> ShowFailed e | Ok v \<Rightarrow> Install t v, s)
      | Install t v \<Rightarrow>
          (case install (wd_enr_ser W) (wd_io W) (wd_now W) dir v (sg_store s) of
             (Err e, st) \<Rightarrow> (ShowFailed e, s\<lparr>sg_store := st\<rparr>)
           | (Ok r, st) \<Rightarrow> (ShowSignedIn (shown_email t r) (enr_expires_at r), s\<lparr>sg_store := st\<rparr>))
      | ShowSignedIn email expires \<Rightarrow> (Over, s\<lparr>sg_auth := SignedIn email expires\<rparr>)
      | ShowFailed e \<Rightarrow> (Over, s\<lparr>sg_auth := SignInFailed e\<rparr>)
      | CancelFlag \<Rightarrow> (CancelShow, s\<lparr>sg_cancel := True\<rparr>)
      | CancelShow \<Rightarrow> (Over, s\<lparr>sg_auth := SignedOut\<rparr>)
      | OutFlag \<Rightarrow> (OutStop, s\<lparr>sg_cancel := True\<rparr>)
      | OutStop \<Rightarrow> (OutTokens, s)
      | OutTokens \<Rightarrow> (OutClear, s\<lparr>sg_store := tokens_forget (wd_io W) dir (sg_store s)\<rparr>)
      | OutClear \<Rightarrow> (OutShow, s\<lparr>sg_store := clear (wd_io W) dir (sg_store s)\<rparr>)
      | OutShow \<Rightarrow> (Over, s\<lparr>sg_auth := SignedOut\<rparr>)
      | Over \<Rightarrow> (Over, s)
      | Refused e \<Rightarrow> (Refused e, s))"

section \<open>Runs\<close>

datatype signin_event =
    CallSignIn config
  | CallCancel
  | CallSignOut
  | TaskStep nat reply

fun entry_pc :: "signin_event \<Rightarrow> task_pc" where
  "entry_pc (CallSignIn cfg) = Prepare"
| "entry_pc CallCancel = CancelFlag"
| "entry_pc CallSignOut = OutFlag"
| "entry_pc (TaskStep n rp) = Over"

fun signin_next :: "world \<Rightarrow> path \<Rightarrow> signin_event \<Rightarrow> signin \<Rightarrow> signin" where
  "signin_next W dir (TaskStep n rp) s =
     (if n < length (sg_tasks s) then
        (case task_step W dir rp (sg_tasks s ! n) s of
           (pc, s') \<Rightarrow> s'\<lparr>sg_tasks := (sg_tasks s)[n := (sg_tasks s ! n)\<lparr>tk_pc := pc\<rparr>]\<rparr>)
      else s)"
| "signin_next W dir ev s =
     s\<lparr>sg_tasks := sg_tasks s @
        [\<lparr>tk_pc = entry_pc ev, tk_cfg = (case ev of CallSignIn cfg \<Rightarrow> cfg | _ \<Rightarrow> default_config)\<rparr>]\<rparr>"

definition signin_run :: "world \<Rightarrow> path \<Rightarrow> signin_event list \<Rightarrow> signin \<Rightarrow> signin" where
  "signin_run W dir es s = fold (signin_next W dir) es s"

definition signed_out :: "store \<Rightarrow> signin" where
  "signed_out st = \<lparr>sg_auth = SignedOut, sg_cancel = False, sg_store = st, sg_opened = [], sg_tasks = []\<rparr>"

section \<open>Facts about runs\<close>

lemma signin_run_simps [simp]:
  "signin_run W dir [] s = s"
  "signin_run W dir (e # es) s = signin_run W dir es (signin_next W dir e s)"
  "signin_run W dir (es @ fs) s = signin_run W dir fs (signin_run W dir es s)"
  by (simp_all add: signin_run_def)

lemma task_step_tasks [simp]: "task_step W dir rp k s = (pc, s') \<Longrightarrow> sg_tasks s' = sg_tasks s"
  by (cases "tk_pc k")
    (auto simp: task_step_def split: if_splits sum.splits prod.splits round.splits)

text \<open>Who shows that somebody is signed in: only the step that does, after an install.\<close>

lemma task_step_signed_in:
  "task_step W dir rp k s = (pc, s') \<Longrightarrow> sg_auth s' = SignedIn email expires \<Longrightarrow>
   sg_auth s \<noteq> SignedIn email expires \<Longrightarrow> tk_pc k = ShowSignedIn email expires"
  by (cases "tk_pc k")
    (auto simp: task_step_def split: if_splits sum.splits prod.splits)

lemma task_step_show:
  "task_step W dir rp k s = (ShowSignedIn email expires, s') \<Longrightarrow>
   \<exists>t v r. tk_pc k = Install t v \<and>
     fst (install (wd_enr_ser W) (wd_io W) (wd_now W) dir v (sg_store s)) = Ok r \<and>
     email = shown_email t r \<and> expires = enr_expires_at r"
  by (cases "tk_pc k")
    (auto simp: task_step_def split: if_splits sum.splits prod.splits round.splits)

lemmas task_eval = task_step_def eval_nat_numeral

lemma step_task:
  "n < length (sg_tasks s) \<Longrightarrow> task_step W dir rp (sg_tasks s ! n) s = (pc, s') \<Longrightarrow>
   signin_next W dir (TaskStep n rp) s =
     s'\<lparr>sg_tasks := (sg_tasks s)[n := (sg_tasks s ! n)\<lparr>tk_pc := pc\<rparr>]\<rparr>"
  by simp

section \<open>What a sign-in does when nothing comes in between\<close>

text \<open>The part of \<^verbatim>\<open>sign_in\<close> after the tokens are there, as the code has it: save them, enrol, show.\<close>

definition finish_sign_in ::
    "world \<Rightarrow> path \<Rightarrow> config \<Rightarrow> service \<Rightarrow> tokens \<Rightarrow> store \<Rightarrow> auth_state \<times> store" where
  "finish_sign_in W dir cfg service t st =
     (case tokens_save (wd_tok_ser W) (wd_io W) dir t st of
        (Err e, st1) \<Rightarrow> (SignInFailed e, st1)
      | (Ok _, st1) \<Rightarrow>
          (case enroll (wd_enr_ser W) (wd_io W) (wd_keygen W) (wd_run W) (wd_user W) service (wd_now W)
                  dir (enroll_url cfg) t st1 of
             (Err e, st2) \<Rightarrow> (SignInFailed e, st2)
           | (Ok r, st2) \<Rightarrow> (SignedIn (shown_email t r) (enr_expires_at r), st2)))"

text \<open>
  How a run of one thread alone ends: with this state and these files, the cancel flag untouched and
  the thread over.
\<close>

definition ends_as :: "nat \<Rightarrow> auth_state \<times> store \<Rightarrow> signin \<Rightarrow> signin \<Rightarrow> bool" where
  "ends_as n x s s' \<longleftrightarrow>
     (sg_auth s', sg_store s') = x \<and> sg_cancel s' = sg_cancel s \<and> tk_pc (sg_tasks s' ! n) = Over"

lemma over_alone:
  "n < length (sg_tasks s) \<Longrightarrow> tk_pc (sg_tasks s ! n) = Over \<Longrightarrow>
   ends_as n (sg_auth s, sg_store s) s (signin_run W dir (replicate i (TaskStep n rp)) s)"
proof (induction i arbitrary: s)
  case (Suc i)
  then show ?case
    using Suc.IH [of "signin_next W dir (TaskStep n rp) s"]
    by (simp add: ends_as_def task_step_def)
qed (simp add: ends_as_def)

text \<open>One step of the thread, and then what comes of it.\<close>

lemma step_alone:
  assumes "n < length (sg_tasks s)"
    and "\<And>u. n < length (sg_tasks u) \<Longrightarrow>
           tk_pc (sg_tasks u ! n) = fst (task_step W dir rp (sg_tasks s ! n) s) \<Longrightarrow>
           tk_cfg (sg_tasks u ! n) = tk_cfg (sg_tasks s ! n) \<Longrightarrow>
           sg_auth u = sg_auth (snd (task_step W dir rp (sg_tasks s ! n) s)) \<Longrightarrow>
           sg_store u = sg_store (snd (task_step W dir rp (sg_tasks s ! n) s)) \<Longrightarrow>
           ends_as n x u (signin_run W dir (replicate i (TaskStep n rp)) u)"
    and "sg_cancel (snd (task_step W dir rp (sg_tasks s ! n) s)) = sg_cancel s"
  shows "ends_as n x s (signin_run W dir (replicate (Suc i) (TaskStep n rp)) s)"
  using assms(1,3) assms(2) [of "signin_next W dir (TaskStep n rp) s"]
  by (simp add: ends_as_def case_prod_unfold)

lemma failed_alone:
  assumes "n < length (sg_tasks s)" and "tk_pc (sg_tasks s ! n) = ShowFailed e" and "st = sg_store s"
  shows "ends_as n (SignInFailed e, st) s (signin_run W dir (replicate (Suc i) (TaskStep n rp)) s)"
  by (rule step_alone) (use assms over_alone in \<open>fastforce simp: task_step_def\<close>)+

lemma shown_alone:
  assumes "n < length (sg_tasks s)" and "tk_pc (sg_tasks s ! n) = ShowSignedIn email expires" and "st = sg_store s"
  shows "ends_as n (SignedIn email expires, st) s (signin_run W dir (replicate (Suc i) (TaskStep n rp)) s)"
  by (rule step_alone) (use assms over_alone in \<open>fastforce simp: task_step_def\<close>)+

definition shown_result :: "tokens \<Rightarrow> enrollment result \<times> store \<Rightarrow> auth_state \<times> store" where
  "shown_result t x =
     (case x of (Err e, st) \<Rightarrow> (SignInFailed e, st)
      | (Ok r, st) \<Rightarrow> (SignedIn (shown_email t r) (enr_expires_at r), st))"

lemma shown_result_simps [simp]:
  "shown_result t (Err e, st) = (SignInFailed e, st)"
  "shown_result t (Ok r, st) = (SignedIn (shown_email t r) (enr_expires_at r), st)"
  by (simp_all add: shown_result_def)

lemma install_alone:
  assumes "n < length (sg_tasks s)" and "tk_pc (sg_tasks s ! n) = Install t v"
    and "x = shown_result t (install (wd_enr_ser W) (wd_io W) (wd_now W) dir v (sg_store s))"
  shows "ends_as n x s (signin_run W dir (replicate (Suc (Suc i)) (TaskStep n rp)) s)"
proof (cases "install (wd_enr_ser W) (wd_io W) (wd_now W) dir v (sg_store s)")
  case (Pair r st)
  show ?thesis
    by (cases r; rule step_alone)
      (use assms Pair in \<open>auto simp: task_step_def simp del: replicate_Suc
         intro: failed_alone shown_alone\<close>)
qed

lemma ask_alone:
  assumes "n < length (sg_tasks s)" and "tk_pc (sg_tasks s ! n) = AskService t public"
    and "x = shown_result t (case service_reply (rp_service rp) of
               Err e \<Rightarrow> (Err e, sg_store s)
             | Ok v \<Rightarrow> install (wd_enr_ser W) (wd_io W) (wd_now W) dir v (sg_store s))"
  shows "ends_as n x s (signin_run W dir (replicate (Suc (Suc (Suc i))) (TaskStep n rp)) s)"
  by (cases "service_reply (rp_service rp)"; rule step_alone)
    (use assms in \<open>auto simp: task_step_def simp del: replicate_Suc intro: failed_alone install_alone\<close>)

lemma make_key_alone:
  assumes "n < length (sg_tasks s)" and "tk_pc (sg_tasks s ! n) = MakeKey t"
    and "x = shown_result t (enroll (wd_enr_ser W) (wd_io W) (wd_keygen W) (wd_run W) (wd_user W)
               (\<lambda>_ _ _. rp_service rp) (wd_now W) dir (enroll_url (tk_cfg (sg_tasks s ! n))) t (sg_store s))"
  shows "ends_as n x s (signin_run W dir (replicate 4 (TaskStep n rp)) s)"
proof -
  have four: "(4 :: nat) = Suc (Suc (Suc (Suc 0)))" by simp
  show ?thesis
  proof (cases "trim (enroll_url (tk_cfg (sg_tasks s ! n))) = []")
    case True
    show ?thesis unfolding four
      by (rule step_alone) (use assms True in \<open>auto simp: task_step_def enroll_def
        simp del: replicate_Suc intro: failed_alone\<close>)
  next
    case False
    obtain r st where g: "generate_key (wd_io W) (wd_keygen W) (wd_run W) (wd_user W) dir (sg_store s) = (r, st)"
      by fastforce
    show ?thesis unfolding four
      by (cases r; rule step_alone)
        (use assms False g in \<open>auto simp: task_step_def enroll_def
           simp del: replicate_Suc intro: failed_alone ask_alone\<close>)
  qed
qed

text \<open>Left alone, the thread does what its code says in sequence.\<close>

lemma sign_in_left_alone:
  assumes "n < length (sg_tasks s)" and "tk_pc (sg_tasks s ! n) = SaveTokens t"
  shows "ends_as n (finish_sign_in W dir (tk_cfg (sg_tasks s ! n)) (\<lambda>_ _ _. rp_service rp) t (sg_store s))
           s (signin_run W dir (replicate 6 (TaskStep n rp)) s)"
proof -
  have six: "(6 :: nat) = Suc 5" and five: "(5 :: nat) = Suc 4" by simp_all
  have enrolling: "ends_as n x u (signin_run W dir (replicate 5 (TaskStep n rp)) u)"
    if "n < length (sg_tasks u)" "tk_pc (sg_tasks u ! n) = ShowEnrolling t"
      "x = shown_result t (enroll (wd_enr_ser W) (wd_io W) (wd_keygen W) (wd_run W) (wd_user W)
               (\<lambda>_ _ _. rp_service rp) (wd_now W) dir (enroll_url (tk_cfg (sg_tasks u ! n))) t (sg_store u))" for u x
    unfolding five
    by (rule step_alone) (use that in \<open>auto simp: task_step_def simp del: replicate_Suc intro: make_key_alone\<close>)
  have failed: "ends_as n (SignInFailed e, sg_store u) u (signin_run W dir (replicate 5 (TaskStep n rp)) u)"
    if "n < length (sg_tasks u)" "tk_pc (sg_tasks u ! n) = ShowFailed e" for u e
    unfolding five using that by (intro failed_alone) simp_all
  obtain r st where saved: "tokens_save (wd_tok_ser W) (wd_io W) dir t (sg_store s) = (r, st)" by fastforce
  show ?thesis unfolding finish_sign_in_def shown_result_def [symmetric] six
    by (cases r; rule step_alone)
      (use assms saved in \<open>auto simp: task_step_def simp del: replicate_Suc intro: enrolling failed\<close>)
qed

section \<open>Who is shown as signed in\<close>

definition promises :: "signin \<Rightarrow> string \<Rightarrow> u64 \<Rightarrow> bool" where
  "promises s email expires \<longleftrightarrow>
     sg_auth s = SignedIn email expires \<or>
     (\<exists>k \<in> set (sg_tasks s). tk_pc k = ShowSignedIn email expires)"

lemma promises_next:
  assumes "promises (signin_next W dir e s) email expires" and "\<not> promises s email expires"
  shows "\<exists>n rp t v r. e = TaskStep n rp \<and> n < length (sg_tasks s) \<and> tk_pc (sg_tasks s ! n) = Install t v \<and>
           fst (install (wd_enr_ser W) (wd_io W) (wd_now W) dir v (sg_store s)) = Ok r \<and>
           email = shown_email t r \<and> expires = enr_expires_at r"
proof (cases e)
  case (TaskStep n rp)
  with assms have n: "n < length (sg_tasks s)" by (auto split: if_splits)
  obtain pc s' where st: "task_step W dir rp (sg_tasks s ! n) s = (pc, s')" by fastforce
  have "sg_auth s' \<noteq> SignedIn email expires"
    using task_step_signed_in [OF st] assms(2) n nth_mem by (auto simp: promises_def)
  then have "pc = ShowSignedIn email expires"
    using assms n st set_update_subset_insert [of "sg_tasks s" n] TaskStep
    by (force simp: promises_def)
  with st have "task_step W dir rp (sg_tasks s ! n) s = (ShowSignedIn email expires, s')" by simp
  from task_step_show [OF this] TaskStep n show ?thesis by blast
qed (use assms in \<open>auto simp: promises_def\<close>)

section \<open>What the cancel flag reaches\<close>

fun setting_up :: "task_pc \<Rightarrow> bool" where
  "setting_up Prepare = True"
| "setting_up (ShowPrompt p) = True"
| "setting_up ClearFlag = True"
| "setting_up _ = False"

fun given_up :: "task_pc \<Rightarrow> bool" where
  "given_up AwaitUser = True"
| "given_up (ShowFailed e) = True"
| "given_up Over = True"
| "given_up _ = False"

definition cancelled :: "nat \<Rightarrow> signin \<Rightarrow> bool" where
  "cancelled n s \<longleftrightarrow> sg_cancel s \<and> n < length (sg_tasks s) \<and> given_up (tk_pc (sg_tasks s ! n)) \<and>
     (\<forall>k \<in> set (sg_tasks s). \<not> setting_up (tk_pc k))"

lemma task_step_set_up:
  "task_step W dir rp k s = (pc, s') \<Longrightarrow> \<not> setting_up (tk_pc k) \<Longrightarrow> sg_cancel s \<Longrightarrow>
   \<not> setting_up pc \<and> sg_cancel s' \<and> (given_up (tk_pc k) \<longrightarrow> given_up pc)"
  by (cases "tk_pc k")
    (auto simp: task_step_def dest: arg_cong [of _ _ setting_up]
      split: if_splits sum.splits prod.splits round.splits)

lemma cancelled_next: "cancelled n s \<Longrightarrow> \<forall>cfg. e \<noteq> CallSignIn cfg \<Longrightarrow> cancelled n (signin_next W dir e s)"
proof (cases e)
  case (TaskStep m rp)
  assume c: "cancelled n s"
  obtain pc s' where st: "task_step W dir rp (sg_tasks s ! m) s = (pc, s')" by fastforce
  then show ?thesis
    using c task_step_set_up [OF st] TaskStep set_update_subset_insert [of "sg_tasks s" m]
    by (force simp: cancelled_def nth_list_update)
qed (auto simp: cancelled_def nth_append)

interpretation cancelling: event_system "signin_next W dir" "\<lambda>e. \<forall>cfg. e \<noteq> CallSignIn cfg" "cancelled n"
  for W dir n
  by unfold_locales (rule cancelled_next)

section \<open>Properties\<close>

text \<open>
  Signed in means enrolled: starting signed out, in whatever order the threads of sign-ins,
  cancellations and sign-outs run, the state shows an email and an expiry only after some thread
  has installed a certificate whose record has this expiry and this identity (or, when it names
  none, whose tokens carry this email).
\<close>

theorem signed_in_was_enrolled:
  assumes "sg_auth (signin_run W dir es (signed_out st)) = SignedIn email expires"
  shows "\<exists>pre n rp post t v r. es = pre @ TaskStep n rp # post \<and>
           n < length (sg_tasks (signin_run W dir pre (signed_out st))) \<and>
           tk_pc (sg_tasks (signin_run W dir pre (signed_out st)) ! n) = Install t v \<and>
           fst (install (wd_enr_ser W) (wd_io W) (wd_now W) dir v
                  (sg_store (signin_run W dir pre (signed_out st)))) = Ok r \<and>
           email = shown_email t r \<and> expires = enr_expires_at r"
proof -
  have "promises (fold (signin_next W dir) es (signed_out st)) email expires"
    "\<not> promises (signed_out st) email expires"
    using assms by (simp_all add: promises_def signin_run_def signed_out_def)
  from fold_first [of "\<lambda>s. promises s email expires", OF this] promises_next
  show ?thesis unfolding signin_run_def by metis
qed

text \<open>
  (C17) A cancelled sign-in saves nothing: once the flag is up, a thread that is still waiting for the
  user can only go on waiting, fail or end, whatever the provider answers, as long as no other
  sign-in is begun.
\<close>

theorem cancel_is_obeyed:
  assumes "sg_cancel s" and "n < length (sg_tasks s)" and "tk_pc (sg_tasks s ! n) = AwaitUser"
    and "\<forall>k \<in> set (sg_tasks s). \<not> setting_up (tk_pc k)" and "\<forall>cfg. CallSignIn cfg \<notin> set es"
  shows "given_up (tk_pc (sg_tasks (signin_run W dir es s) ! n))"
  using cancelling.fold_inv [of n s es W dir] assms
  by (auto simp: cancelled_def signin_run_def list_all_iff)

text \<open>
  (C32) A new sign-in revives the one that was cancelled: the flag is one for all, and beginning
  to sign in again lowers it, so a thread that has not yet looked at it goes on, and the user who
  answers the old prompt is granted the old sign-in.
\<close>

theorem sign_in_revives_cancelled:
  assumes "n < length (sg_tasks s)" and "tk_pc (sg_tasks s ! n) = AwaitUser"
    and "m = length (sg_tasks s)" and "oidc_is_complete (cfg_oidc cfg)"
    and "0 < oidc_redirect_port (cfg_oidc cfg)" and "rp_round rp = Granted t"
    and "s1 = signin_run W dir [CallCancel, TaskStep m rp, TaskStep m rp] s"
    and "s2 = signin_run W dir (CallSignIn cfg # replicate 3 (TaskStep (Suc m) rp) @
                replicate 2 (TaskStep n rp)) s1"
  shows "sg_cancel s1 \<and> sg_auth s1 = SignedOut \<and> \<not> sg_cancel s2 \<and>
         tk_pc (sg_tasks s2 ! n) = SaveTokens t \<and> tk_pc (sg_tasks s2 ! Suc m) = AwaitUser"
proof -
  let ?k = "\<lparr>tk_pc = Over, tk_cfg = default_config\<rparr>"
  have s1: "s1 = s\<lparr>sg_auth := SignedOut, sg_cancel := True, sg_tasks := sg_tasks s @ [?k]\<rparr>"
    using assms(3) by (simp add: assms(7) task_step_def nth_append list_update_append)
  let ?s = "signin_run W dir (CallSignIn cfg # replicate 3 (TaskStep (Suc m) rp)) s1"
  let ?p = "redirect_prompt cfg (rp_pkce rp)"
  have "?s = s1\<lparr>sg_auth := Waiting ?p, sg_cancel := False,
      sg_opened := sg_opened s @ [dp_verification_uri_complete ?p],
      sg_tasks := sg_tasks s @ [?k, \<lparr>tk_pc = AwaitUser, tk_cfg = cfg\<rparr>]\<rparr>"
    using assms(3-5) s1
    by (simp add: eval_nat_numeral task_step_def prompt_for_def nth_append list_update_append)
  moreover have "s2 = signin_run W dir [TaskStep n rp, TaskStep n rp] ?s"
    by (simp add: assms(8) eval_nat_numeral del: signin_next.simps)
  ultimately show ?thesis using assms(1-3,6) s1
    by (simp add: task_step_def nth_append list_update_append)
qed

text \<open>
  (C30) Signing out does not end a sign-in that is enrolling: it removes the credentials while the
  service is asked, and when the answer is installed, the certificate and the record are back, without
  the private key they belong to, and the state says signed in.
\<close>

theorem sign_out_is_overtaken:
  assumes "n < length (sg_tasks s)" and "tk_pc (sg_tasks s ! n) = Install t v"
    and "m = length (sg_tasks s)" and "\<forall>q. remove_ok (wd_io W) q"
    and "s1 = signin_run W dir (CallSignOut # replicate 5 (TaskStep m rp)) s"
    and "install (wd_enr_ser W) (wd_io W) (wd_now W) dir v (sg_store s1) = (Ok r, st)"
    and "s2 = signin_run W dir [TaskStep n rp, TaskStep n rp] s1"
  shows "sg_auth s1 = SignedOut \<and> sg_store s1 (key_path dir) = None \<and> sg_store s1 (cert_path dir) = None \<and>
         sg_auth s2 = SignedIn (shown_email t r) (enr_expires_at r) \<and>
         sg_store s2 (key_path dir) = None \<and> sg_store s2 (cert_path dir) \<noteq> None \<and>
         sg_store s2 (enrollment_path dir) \<noteq> None"
proof -
  have s1: "s1 = s\<lparr>sg_auth := SignedOut, sg_cancel := True,
      sg_store := clear (wd_io W) dir (tokens_forget (wd_io W) dir (sg_store s)),
      sg_tasks := sg_tasks s @ [\<lparr>tk_pc = Over, tk_cfg = default_config\<rparr>]\<rparr>"
    using assms(1-3) by (simp add: assms(5) eval_nat_numeral task_step_def nth_append list_update_append)
  moreover have "sg_store s2 = st" "sg_auth s2 = SignedIn (shown_email t r) (enr_expires_at r)"
    using assms(1,2,6) s1 by (simp_all add: assms(7) task_step_def nth_append list_update_append)
  moreover have "sg_store s1 (key_path dir) = None" "sg_store s1 (cert_path dir) = None"
    using s1 by (simp_all add: clear_apply [OF assms(4)])
  ultimately show ?thesis using install_OkD [OF assms(6)] by auto
qed

text \<open>
  What a sign-in that failed leaves, by the part that failed: saving the tokens, the address of the
  service, the key, the service, or its answer. From the new key on the old certificate is removed;
  the record and the pinned host key are only touched once there is a certificate to write.
\<close>

definition certificate_dropped :: "io_env \<Rightarrow> path \<Rightarrow> store \<Rightarrow> store \<Rightarrow> bool" where
  "certificate_dropped env dir st st' \<longleftrightarrow>
     st' (cert_path dir) = (if remove_ok env (cert_path dir) then None else st (cert_path dir)) \<and>
     st' (known_hosts_path dir) = st (known_hosts_path dir) \<and> st' (enrollment_path dir) = st (enrollment_path dir)"

definition new_key :: "world \<Rightarrow> path \<Rightarrow> store \<Rightarrow> bool" where
  "new_key W dir st' \<longleftrightarrow> (\<exists>private. kg_private (wd_keygen W) = Ok private \<and> st' (key_path dir) = Some private)"

inductive sign_in_failure ::
    "world \<Rightarrow> path \<Rightarrow> string \<Rightarrow> tokens \<Rightarrow> http_result \<Rightarrow> store \<Rightarrow> store \<Rightarrow> string \<Rightarrow> bool"
  for W dir url t resp st st' where
  tokens_unsaved:
    "mkdir_error (wd_io W) dir = Some e \<or> wd_tok_ser W t = Err e \<or> write_error (wd_io W) (tokens_path dir) = Some e \<Longrightarrow>
     \<forall>q. q \<noteq> tokens_path dir \<longrightarrow> st' q = st q \<Longrightarrow> sign_in_failure W dir url t resp st st' e"
| no_service:
    "trim url = [] \<Longrightarrow> wd_tok_ser W t = Ok saved \<Longrightarrow> st' = st(tokens_path dir \<mapsto> saved) \<Longrightarrow>
     sign_in_failure W dir url t resp st st' no_url_msg"
| no_key:
    "fst (generate_key (wd_io W) (wd_keygen W) (wd_run W) (wd_user W) dir st) = Err e \<Longrightarrow>
     wd_tok_ser W t = Ok saved \<Longrightarrow> st' (tokens_path dir) = Some saved \<Longrightarrow>
     st' (known_hosts_path dir) = st (known_hosts_path dir) \<Longrightarrow> st' (enrollment_path dir) = st (enrollment_path dir) \<Longrightarrow>
     sign_in_failure W dir url t resp st st' e"
| refused:
    "service_reply resp = Err e \<or>
     (\<exists>v. service_reply resp = Ok v \<and>
        (get_str ''certificate'' v = None \<and> e = no_cert_msg \<or>
         (\<exists>cert. get_str ''certificate'' v = Some cert \<and> \<not> contains cert cert_marker \<and> e = not_cert_msg))) \<Longrightarrow>
     wd_tok_ser W t = Ok saved \<Longrightarrow> st' (tokens_path dir) = Some saved \<Longrightarrow> new_key W dir st' \<Longrightarrow>
     certificate_dropped (wd_io W) dir st st' \<Longrightarrow> sign_in_failure W dir url t resp st st' e"
| not_installed:
    "service_reply resp = Ok v \<Longrightarrow> get_str ''certificate'' v = Some cert \<Longrightarrow> contains cert cert_marker \<Longrightarrow>
     wd_enr_ser W (enrollment_of (wd_now W) v) = Err e \<or> write_error (wd_io W) (cert_path dir) = Some e \<or>
     write_error (wd_io W) (known_hosts_path dir) = Some e \<or> write_error (wd_io W) (enrollment_path dir) = Some e \<Longrightarrow>
     wd_tok_ser W t = Ok saved \<Longrightarrow> st' (tokens_path dir) = Some saved \<Longrightarrow> new_key W dir st' \<Longrightarrow>
     sign_in_failure W dir url t resp st st' e"

text \<open>What a sign-in that succeeded leaves.\<close>

definition sign_in_success ::
    "world \<Rightarrow> path \<Rightarrow> tokens \<Rightarrow> http_result \<Rightarrow> store \<Rightarrow> store \<Rightarrow> string \<Rightarrow> u64 \<Rightarrow> bool" where
  "sign_in_success W dir t resp st st' email expires \<longleftrightarrow>
     (\<exists>saved private public v cert body.
        wd_tok_ser W t = Ok saved \<and> st' (tokens_path dir) = Some saved \<and>
        kg_private (wd_keygen W) = Ok private \<and> st' (key_path dir) = Some private \<and>
        kg_public (wd_keygen W) = Ok public \<and> st' (public_key_path dir) = Some (public @ [nl]) \<and>
        service_reply resp = Ok v \<and> get_str ''certificate'' v = Some cert \<and>
        contains cert cert_marker \<and> st' (cert_path dir) = Some (cert @ [nl]) \<and>
        st' (known_hosts_path dir) =
          (if host_key_of v = [] then st (known_hosts_path dir)
           else Some (host_alias @ '' '' @ host_key_of v @ [nl])) \<and>
        wd_enr_ser W (enrollment_of (wd_now W) v) = Ok body \<and> st' (enrollment_path dir) = Some body \<and>
        email = (if str_field v ''identity'' = [] then tok_email t else str_field v ''identity'') \<and>
        expires = unwrap_or (wd_now W + 43200) (get_u64 ''expires_at'' v))"

definition signin_files :: "path \<Rightarrow> path set" where
  "signin_files dir =
     {tokens_path dir, key_path dir, public_key_path dir, cert_path dir, known_hosts_path dir, enrollment_path dir}"

lemma tokens_path_apart [simp]:
  "tokens_path d \<noteq> key_path d" "tokens_path d \<noteq> public_key_path d" "tokens_path d \<noteq> cert_path d"
  "tokens_path d \<noteq> known_hosts_path d" "tokens_path d \<noteq> enrollment_path d"
  "key_path d \<noteq> tokens_path d" "public_key_path d \<noteq> tokens_path d" "known_hosts_path d \<noteq> tokens_path d"
  by (simp_all add: path_defs tokens_path_def)

lemma tokens_save_ErrD:
  "tokens_save ser env dir t st = (Err e, st') \<Longrightarrow>
   mkdir_error env dir = Some e \<or> ser t = Err e \<or> write_error env (tokens_path dir) = Some e"
  by (auto simp: tokens_save_def create_dir_all_def split: option.splits sum.splits dest!: write_file_ErrD)

lemma tokens_save_OkD:
  "tokens_save ser env dir t st = (Ok u, st') \<Longrightarrow> \<exists>saved. ser t = Ok saved \<and> st' = st(tokens_path dir \<mapsto> saved)"
  by (auto simp: tokens_save_def split: sum.splits dest!: write_file_OkD)

lemma enroll_failure:
  assumes saved: "wd_tok_ser W t = Ok saved" "st1 = st(tokens_path dir \<mapsto> saved)"
    and "enroll (wd_enr_ser W) (wd_io W) (wd_keygen W) (wd_run W) (wd_user W) (\<lambda>_ _ _. resp) (wd_now W) dir url t st1 =
      (Err e, st')"
  shows "sign_in_failure W dir url t resp st st' e"
proof (cases "trim url = []")
  case False
  obtain r st2 where key: "generate_key (wd_io W) (wd_keygen W) (wd_run W) (wd_user W) dir st1 = (r, st2)"
    by fastforce
  have kept: "st2 q = st1 q" if "q \<notin> {key_path dir, cert_path dir, public_key_path dir}" for q
    using generate_key_frame [OF key that] .
  show ?thesis
  proof (cases r)
    case (Inl x)
    then have "fst (generate_key (wd_io W) (wd_keygen W) (wd_run W) (wd_user W) dir st) = Err e" "st' = st2"
      using assms(3) False key generate_key_answer [of "wd_io W" "wd_keygen W" "wd_run W" "wd_user W" dir st st1]
      by (simp_all add: enroll_def)
    then show ?thesis using saved kept by (intro no_key [where saved = saved]) simp_all
  next
    case (Inr public)
    from generate_key_OkD [of "wd_io W" "wd_keygen W" "wd_run W" "wd_user W" dir st1 public st2] key Inr
    have new: "new_key W dir st2" "certificate_dropped (wd_io W) dir st st2" "st2 (tokens_path dir) = Some saved"
      using saved by (auto simp: new_key_def certificate_dropped_def remove_file_def)
    show ?thesis
    proof (cases "service_reply resp")
      case (Inl x)
      then have "x = e" "st' = st2" using assms(3) False key Inr by (simp_all add: enroll_def)
      with Inl new saved show ?thesis by (intro refused [where saved = saved]) simp_all
    next
      case (Inr v)
      then have ins: "install (wd_enr_ser W) (wd_io W) (wd_now W) dir v st2 = (Err e, st')"
        using assms(3) False key \<open>r = Ok public\<close> by (simp add: enroll_def)
      from install_frame [OF ins] new(1,3) have "new_key W dir st'" "st' (tokens_path dir) = Some saved"
        by (simp_all add: new_key_def)
      with install_ErrD [OF ins] Inr new saved show ?thesis
        by (elim disjE exE conjE) (rule refused not_installed, simp; simp)+
    qed
  qed
qed (use assms in \<open>simp add: enroll_def no_service\<close>)

lemma finish_sign_in_success:
  assumes "finish_sign_in W dir cfg (\<lambda>_ _ _. resp) t st = (SignedIn email expires, st')"
  shows "sign_in_success W dir t resp st st' email expires"
proof -
  obtain saved st1 r where saved: "wd_tok_ser W t = Ok saved" "st1 = st(tokens_path dir \<mapsto> saved)"
    and en: "enroll (wd_enr_ser W) (wd_io W) (wd_keygen W) (wd_run W) (wd_user W) (\<lambda>_ _ _. resp) (wd_now W) dir
      (enroll_url cfg) t st1 = (Ok r, st')" and r: "email = shown_email t r" "expires = enr_expires_at r"
    using assms by (auto simp: finish_sign_in_def split: sum.splits prod.splits dest!: tokens_save_OkD)
  from enroll_contents [OF en] obtain secret public v cert body where
    "kg_private (wd_keygen W) = Ok secret" "st' (key_path dir) = Some secret"
    "kg_public (wd_keygen W) = Ok public" "st' (public_key_path dir) = Some (public @ [nl])"
    "service_reply resp = Ok v" "get_str ''certificate'' v = Some cert" "contains cert cert_marker"
    "st' (cert_path dir) = Some (cert @ [nl])"
    "st' (known_hosts_path dir) = (if host_key_of v = [] then st1 (known_hosts_path dir)
       else Some (host_alias @ '' '' @ host_key_of v @ [nl]))"
    "r = enrollment_of (wd_now W) v" "wd_enr_ser W r = Ok body" "st' (enrollment_path dir) = Some body"
    "st' (tokens_path dir) = st1 (tokens_path dir)"
    by auto
  then show ?thesis unfolding sign_in_success_def
    by (intro exI [of _ saved] exI [of _ secret] exI [of _ public] exI [of _ v] exI [of _ cert] exI [of _ body])
      (use saved r in \<open>simp add: shown_email_def enrollment_of_def Let_def\<close>)
qed

lemma enroll_frame:
  assumes "enroll ser env kg runs user service now dir url t st = (r, st')"
    and "q \<notin> {key_path dir, public_key_path dir, cert_path dir, known_hosts_path dir, enrollment_path dir}"
  shows "st' q = st q"
  using assms by (auto simp: enroll_def split: if_splits sum.splits prod.splits
      dest!: install_frame [of _ _ _ _ _ _ _ _ q] generate_key_frame [of _ _ _ _ _ _ _ _ q])

lemma finish_sign_in_cases:
  assumes "finish_sign_in W dir cfg (\<lambda>_ _ _. resp) t st = (a, st')"
  shows "(case a of SignedIn email expires \<Rightarrow> sign_in_success W dir t resp st st' email expires
          | SignInFailed e \<Rightarrow> sign_in_failure W dir (enroll_url cfg) t resp st st' e
          | _ \<Rightarrow> False) \<and> (\<forall>q. q \<notin> signin_files dir \<longrightarrow> st' q = st q)"
proof (rule conjI)
  obtain x st1 where save: "tokens_save (wd_tok_ser W) (wd_io W) dir t st = (x, st1)" by fastforce
  have other: "st1 q = st q" if "q \<noteq> tokens_path dir" for q
    using tokens_save_frame [OF that, of "wd_tok_ser W" "wd_io W" t st] save by simp
  show "\<forall>q. q \<notin> signin_files dir \<longrightarrow> st' q = st q"
    using assms save other
    by (auto simp: finish_sign_in_def signin_files_def split: sum.splits prod.splits dest!: enroll_frame)
  show "case a of SignedIn email expires \<Rightarrow> sign_in_success W dir t resp st st' email expires
      | SignInFailed e \<Rightarrow> sign_in_failure W dir (enroll_url cfg) t resp st st' e | _ \<Rightarrow> False"
  proof (cases a)
    case (SignInFailed e)
    show ?thesis
    proof (cases x)
      case (Inl e')
      then have "sign_in_failure W dir (enroll_url cfg) t resp st st1 e'"
        using save other by (intro tokens_unsaved tokens_save_ErrD) simp_all
      with assms save Inl SignInFailed show ?thesis by (simp add: finish_sign_in_def)
    next
      case (Inr u)
      with assms save SignInFailed enroll_failure show ?thesis
        by (auto simp: finish_sign_in_def split: sum.splits prod.splits dest!: tokens_save_OkD)
    qed
  next
    case (SignedIn email expires)
    with assms finish_sign_in_success show ?thesis by simp
  qed (use assms in \<open>auto simp: finish_sign_in_def split: sum.splits prod.splits\<close>)
qed


section \<open>Concrete runs\<close>

definition sample_signin_cfg :: config where
  "sample_signin_cfg = default_config\<lparr>cfg_enroll_base := ''e.example.com'', cfg_oidc :=
     oidc_default\<lparr>oidc_issuer := ''https://id'', oidc_client_id := ''app'', oidc_redirect_port := 8912\<rparr>\<rparr>"

definition granted_tokens :: tokens where
  "granted_tokens = sample_tokens\<lparr>tok_email := ''a@b''\<rparr>"

definition sample_answers :: reply where
  "sample_answers =
     \<lparr>rp_begin = Err ''no device flow'', rp_pkce = \<lparr>pk_verifier = ''v'', pk_challenge = ''c'', pk_state = ''s''\<rparr>,
      rp_round = Granted granted_tokens, rp_service = Inr (Response 200 (Ok sample_reply))\<rparr>"

definition sample_signin_run :: "nat \<Rightarrow> signin_event list" where
  "sample_signin_run i = CallSignIn sample_signin_cfg # replicate i (TaskStep 0 sample_answers)"

definition signing_in :: "nat \<Rightarrow> signin" where
  "signing_in i = signin_run (sample_world 100) [''d''] (sample_signin_run i) (signed_out (\<lambda>_. None))"

theorem signed_in_was_enrolled_witness:
  "\<exists>pre n rp post t v r. sample_signin_run 11 = pre @ TaskStep n rp # post \<and>
     n < length (sg_tasks (signin_run (sample_world 100) [''d''] pre (signed_out (\<lambda>_. None)))) \<and>
     tk_pc (sg_tasks (signin_run (sample_world 100) [''d''] pre (signed_out (\<lambda>_. None))) ! n) = Install t v \<and>
     fst (install (wd_enr_ser (sample_world 100)) (wd_io (sample_world 100)) (wd_now (sample_world 100)) [''d''] v
        (sg_store (signin_run (sample_world 100) [''d''] pre (signed_out (\<lambda>_. None))))) = Ok r \<and>
     ''a@b'' = shown_email t r \<and> 43300 = enr_expires_at r"
  by (rule signed_in_was_enrolled) code_simp

definition cancelled_signin :: signin where
  "cancelled_signin = signin_run (sample_world 100) [''d''] [CallCancel, TaskStep 1 sample_answers] (signing_in 3)"

theorem cancel_is_obeyed_witness:
  "given_up (tk_pc (sg_tasks (signin_run (sample_world 100) [''d'']
     (replicate 9 (TaskStep 0 sample_answers)) cancelled_signin) ! 0))"
proof -
  have "sg_cancel cancelled_signin" "0 < length (sg_tasks cancelled_signin)"
    "tk_pc (sg_tasks cancelled_signin ! 0) = AwaitUser"
    "\<forall>k \<in> set (sg_tasks cancelled_signin). \<not> setting_up (tk_pc k)" by code_simp+
  then show ?thesis by (rule cancel_is_obeyed) simp
qed

theorem sign_in_revives_cancelled_witness:
  "let s1 = signin_run (sample_world 100) [''d'']
              [CallCancel, TaskStep 1 sample_answers, TaskStep 1 sample_answers] (signing_in 3);
       s2 = signin_run (sample_world 100) [''d'']
              (CallSignIn sample_signin_cfg # replicate 3 (TaskStep (Suc 1) sample_answers) @
               replicate 2 (TaskStep 0 sample_answers)) s1
   in sg_cancel s1 \<and> tk_pc (sg_tasks s2 ! 0) = SaveTokens granted_tokens"
proof -
  have "0 < length (sg_tasks (signing_in 3))" "tk_pc (sg_tasks (signing_in 3) ! 0) = AwaitUser"
    "1 = length (sg_tasks (signing_in 3))" "oidc_is_complete (cfg_oidc sample_signin_cfg)"
    "0 < oidc_redirect_port (cfg_oidc sample_signin_cfg)" "rp_round sample_answers = Granted granted_tokens"
    by code_simp+
  from sign_in_revives_cancelled [OF this refl refl, of "sample_world 100" "[''d'']"]
  show ?thesis unfolding Let_def by blast
qed

theorem sign_out_is_overtaken_witness:
  "let s1 = signin_run (sample_world 100) [''d'']
              (CallSignOut # replicate 5 (TaskStep 1 sample_answers)) (signing_in 9);
       s2 = signin_run (sample_world 100) [''d''] [TaskStep 0 sample_answers, TaskStep 0 sample_answers] s1
   in sg_auth s1 = SignedOut \<and>
      sg_auth s2 = SignedIn ''a@b'' (enr_expires_at (enrollment_of 100 sample_reply)) \<and>
      sg_store s2 (key_path [''d'']) = None"
proof -
  let ?W = "sample_world 100" and ?s = "signing_in 9"
  let ?s1 = "signin_run ?W [''d''] (CallSignOut # replicate 5 (TaskStep 1 sample_answers)) ?s"
  let ?i = "install (wd_enr_ser ?W) (wd_io ?W) (wd_now ?W) [''d''] sample_reply (sg_store ?s1)"
  have s: "0 < length (sg_tasks ?s)" "tk_pc (sg_tasks ?s ! 0) = Install granted_tokens sample_reply"
    "1 = length (sg_tasks ?s)" by code_simp+
  have ok: "\<forall>q. remove_ok (wd_io ?W) q" by (simp add: sample_world_def)
  have "fst ?i = Ok (enrollment_of 100 sample_reply)" by code_simp
  then have ins: "?i = (Ok (enrollment_of 100 sample_reply), snd ?i)" by (metis prod.collapse)
  have "shown_email granted_tokens (enrollment_of 100 sample_reply) = ''a@b''" by code_simp
  note overtaken = sign_out_is_overtaken [OF s ok refl ins refl, unfolded this]
  show ?thesis unfolding Let_def by (intro conjI) (use overtaken in blast)+
qed

text \<open>The service cannot be reached: the message is its, the tokens and the new key are there.\<close>

definition unreachable_service :: reply where
  "unreachable_service = sample_answers\<lparr>rp_service := Inl (TransportError ''timed out'')\<rparr>"


end
