(* ===== verification/Disk.thy ===== *)
theory Disk
  imports Commands Sign_In
begin

text \<open>
  The settings file and the settings in memory. What every command and every step of a sign-in
  leaves alone of the file, and that the two agree again after each command. Saving is two
  accesses in the code, the file and then the settings; what happens between them is shown too.
\<close>

section \<open>What leaves the settings file alone\<close>

definition settings_kept :: "path \<Rightarrow> store \<Rightarrow> store \<Rightarrow> bool" where
  "settings_kept dir st st' \<longleftrightarrow> st' (config_path dir) = st (config_path dir)"

lemma kept_refl [simp]: "settings_kept dir st st"
  by (simp add: settings_kept_def)

lemma kept_trans: "settings_kept dir st st1 \<Longrightarrow> settings_kept dir st1 st2 \<Longrightarrow> settings_kept dir st st2"
  by (simp add: settings_kept_def)

lemma config_path_other [simp]:
  "config_path d \<noteq> key_path d" "config_path d \<noteq> public_key_path d" "config_path d \<noteq> cert_path d"
  "config_path d \<noteq> known_hosts_path d" "config_path d \<noteq> enrollment_path d"
  by (simp_all add: path_defs config_path_def tokens_path_def)

lemma config_path_last [simp]: "last (config_path d) = ''config.json''"
  by (simp add: config_path_def path_join_def)

lemma tokens_save_kept: "tokens_save ser env dir t st = (r, st') \<Longrightarrow> settings_kept dir st st'"
  unfolding settings_kept_def by (metis app_paths(3) snd_conv tokens_save_frame)

lemma generate_key_kept: "generate_key env kg runs user dir st = (r, st') \<Longrightarrow> settings_kept dir st st'"
  by (auto simp: generate_key_def Let_def settings_kept_def remove_file_def write_file_def
      split: sum.splits prod.splits write_outcome.splits if_splits)

lemma install_kept: "install ser env now dir v st = (r, st') \<Longrightarrow> settings_kept dir st st'"
  by (auto simp: install_def pin_host_key_def enrollment_save_def settings_kept_def write_file_def
      split: sum.splits prod.splits write_outcome.splits if_splits option.splits)

lemma enroll_kept:
  "enroll ser env kg runs user service now dir url t st = (r, st') \<Longrightarrow> settings_kept dir st st'"
  by (auto simp: enroll_def split: if_splits sum.splits prod.splits
      intro: generate_key_kept kept_trans [OF generate_key_kept install_kept])

lemma tokens_forget_kept: "settings_kept dir st (tokens_forget env dir st)"
  by (simp add: settings_kept_def tokens_forget_def remove_file_def)

lemma clear_kept: "settings_kept dir st (clear env dir st)"
  by (simp add: settings_kept_def clear_def remove_files_apply del: remove_files.simps)

lemma spotify_apply_kept: "spotify_apply env runs appdata port st = (r, st') \<Longrightarrow> settings_kept dir st st'"
  by (simp add: settings_kept_def spotify_frame)

lemma spotify_restore_kept: "spotify_restore env appdata st = (r, st') \<Longrightarrow> settings_kept dir st st'"
  by (simp add: settings_kept_def spotify_frame)

lemma renew_quietly_kept: "renew_quietly W slot dir cfg st = (r, st') \<Longrightarrow> settings_kept dir st st'"
  by (auto simp: renew_quietly_def app_enroll_def Let_def
      split: option.splits if_splits sum.splits prod.splits
      intro: tokens_save_kept kept_trans [OF tokens_save_kept enroll_kept])

lemma current_record_kept: "current_record W slot dir cfg st = (r, st') \<Longrightarrow> settings_kept dir st st'"
  by (auto simp: current_record_def split: option.splits if_splits sum.splits prod.splits
      intro: renew_quietly_kept)

lemma task_step_kept: "task_step W dir rp k s = (pc, s') \<Longrightarrow> settings_kept dir (sg_store s) (sg_store s')"
  by (cases "tk_pc k")
    (auto simp: task_step_def tokens_forget_kept clear_kept split: if_splits sum.splits prod.splits
      intro: tokens_save_kept generate_key_kept install_kept)

lemma signin_next_kept: "settings_kept dir (sg_store s) (sg_store (signin_next W dir e s))"
  by (cases e) (auto split: prod.split intro: task_step_kept)

section \<open>Agreement of file and memory\<close>

text \<open>
  What is asked of the disk and the serialiser: the directory can be made, the settings file written,
  read and removed, and every configuration is written as a text that is read as itself.
\<close>

definition reads_back :: "world \<Rightarrow> path \<Rightarrow> bool" where
  "reads_back W dir \<longleftrightarrow>
     mkdir_error (wd_io W) dir = None \<and> write_end (wd_io W) (config_path dir) = WriteOk \<and>
     read_error (wd_io W) (config_path dir) = None \<and> remove_ok (wd_io W) (config_path dir) \<and>
     (\<forall>c. \<exists>body. wd_cfg_ser W c = Ok body \<and> wd_cfg_de W body = Some c)"

definition on_disk :: "world \<Rightarrow> app \<Rightarrow> config" where
  "on_disk W a = config_load (wd_cfg_de W) (wd_io W) (ap_dir a) (ap_store a)"

definition agrees :: "world \<Rightarrow> path \<Rightarrow> app \<Rightarrow> bool" where
  "agrees W dir a \<longleftrightarrow> ap_dir a = dir \<and> on_disk W a = ap_cfg a"

lemma config_load_kept:
  "settings_kept dir st st' \<Longrightarrow> config_load de env dir st' = config_load de env dir st"
  by (simp add: settings_kept_def config_load_def read_to_string_def)

lemma agrees_kept:
  "agrees W dir a \<Longrightarrow> settings_kept dir (ap_store a) (ap_store a') \<Longrightarrow> ap_dir a' = ap_dir a \<Longrightarrow>
   ap_cfg a' = ap_cfg a \<Longrightarrow> agrees W dir a'"
  by (auto simp: agrees_def on_disk_def config_load_kept)

lemma saved_settings:
  assumes "reads_back W dir"
  shows "\<exists>st'. config_save (wd_cfg_ser W) (wd_io W) dir c st = (Ok (), st') \<and>
           config_load (wd_cfg_de W) (wd_io W) dir st' = c"
proof -
  obtain body where "wd_cfg_ser W c = Ok body" "wd_cfg_de W body = Some c"
    using assms by (auto simp: reads_back_def)
  then show ?thesis
    using assms by (simp add: reads_back_def config_save_def config_load_def create_dir_all_def file_simps)
qed

lemma saved_agrees:
  assumes "reads_back W dir" and "agrees W dir a"
  shows "agrees W dir (a\<lparr>ap_cfg := c, ap_store := snd (config_save (wd_cfg_ser W) (wd_io W) dir c st)\<rparr>)"
  using saved_settings [OF assms(1), of c st] assms(2) by (auto simp: agrees_def on_disk_def)

lemma agrees_same [simp]:
  "agrees W dir (a\<lparr>ap_auth := x\<rparr>) = agrees W dir a" "agrees W dir (a\<lparr>ap_started := xs\<rparr>) = agrees W dir a"
  "agrees W dir (a\<lparr>ap_last_good := g\<rparr>) = agrees W dir a" "agrees W dir (a\<lparr>ap_sys := y\<rparr>) = agrees W dir a"
  "agrees W dir (a\<lparr>ap_cancel := b\<rparr>) = agrees W dir a"
  by (simp_all add: agrees_def on_disk_def)

section \<open>The commands keep the agreement\<close>

lemma save_config_agrees:
  assumes "reads_back W dir" and "agrees W dir a"
  shows "agrees W dir (snd (save_config W cfg a))"
  using saved_settings [OF assms(1), of cfg "ap_store a"] assms(2)
  by (auto simp: agrees_def on_disk_def save_config_def save_write_def set_config_def)

lemma discover_cases:
  "snd (discover W sh base snapshot a) = a \<or>
   (\<exists>cfg r st. config_save (wd_cfg_ser W) (wd_io W) (ap_dir a) cfg (ap_store a) = (r, st) \<and>
      snd (discover W sh base snapshot a) =
        (case r of Err e \<Rightarrow> a\<lparr>ap_store := st\<rparr> | Ok _ \<Rightarrow> a\<lparr>ap_store := st, ap_cfg := cfg\<rparr>))"
proof -
  let ?cfg = "snapshot\<lparr>cfg_enroll_base := trim base\<rparr>"
  have ?thesis
    if "discovery_url ?cfg \<noteq> []" and "wd_get W (app_agent W (ap_last_good a) ?cfg (discovery_url ?cfg) 20) (discovery_url ?cfg) = Ok x"
      and "resp_json x = Ok v" and "oidc_is_complete (discovered v)" for x v
    using that
    by (intro disjI2 exI [of _ "?cfg\<lparr>cfg_oidc := discovered v\<rparr>"])
      (auto simp: discover_def Let_def split: prod.split sum.split)
  then show ?thesis by (auto simp: discover_def Let_def split: sum.split)
qed

lemma discover_agrees:
  assumes "reads_back W dir" and "agrees W dir a"
  shows "agrees W dir (snd (discover W sh base snapshot a))"
  using discover_cases [of W sh base snapshot a]
proof (elim disjE exE conjE)
  fix cfg r st
  assume save: "config_save (wd_cfg_ser W) (wd_io W) (ap_dir a) cfg (ap_store a) = (r, st)"
    and a': "snd (discover W sh base snapshot a) =
      (case r of Err e \<Rightarrow> a\<lparr>ap_store := st\<rparr> | Ok _ \<Rightarrow> a\<lparr>ap_store := st, ap_cfg := cfg\<rparr>)"
  have "r = Ok ()" "config_load (wd_cfg_de W) (wd_io W) dir st = cfg"
    using saved_settings [OF assms(1), of cfg "ap_store a"] save assms(2) by (auto simp: agrees_def)
  then show ?thesis using a' assms(2) by (simp add: agrees_def on_disk_def)
qed (simp add: assms(2))

lemma remember_proxy_agrees:
  assumes "reads_back W dir" and "agrees W dir a"
  shows "agrees W dir (remember_proxy W proxy a)"
  using saved_settings [OF assms(1), of "(ap_cfg a)\<lparr>cfg_proxy_last_good := pi_url proxy\<rparr>" "ap_store a"] assms(2)
  by (auto simp: remember_proxy_def Let_def agrees_def on_disk_def)

lemma check_server_agrees:
  "reads_back W dir \<Longrightarrow> agrees W dir a \<Longrightarrow> agrees W dir (snd (check_server W base a))"
  by (auto simp: check_server_def Let_def intro: remember_proxy_agrees split: sum.split http_error.split)

lemma launch_tunnel_agrees: "agrees W dir a \<Longrightarrow> agrees W dir (launch_tunnel W' t cfg via a)"
  by (erule agrees_kept)
    (auto simp: launch_tunnel_def intro: spotify_apply_kept [OF surjective_pairing])

lemma start_tunnel_agrees:
  assumes "reads_back W dir" and "agrees W dir a"
  shows "agrees W dir (snd (start_tunnel W a))"
proof -
  obtain r st where cr: "current_record W (ap_last_good a) (ap_dir a) (ap_cfg a) (ap_store a) = (r, st)"
    by fastforce
  have kept: "settings_kept dir (ap_store a) st"
    using current_record_kept [OF cr] assms(2) by (simp add: agrees_def)
  have same: "agrees W dir (a\<lparr>ap_store := st, ap_auth := x, ap_started := s\<rparr>)"
    "agrees W dir (a\<lparr>ap_store := st\<rparr>)" for x s
    by (rule agrees_kept [OF assms(2)]; simp add: kept)+
  have rec: "agrees W dir (a\<lparr>ap_auth := x, ap_cfg := c,
      ap_store := snd (config_save (wd_cfg_ser W) (wd_io W) (ap_dir a) c st)\<rparr>)" for x c
    using saved_settings [OF assms(1), of c st] assms(2) by (auto simp: agrees_def on_disk_def)
  show ?thesis
    using same rec unfolding start_tunnel_def cr Let_def
    by (auto simp: launch_tunnel_agrees split: sum.split prod.split option.split)
qed

lemma after_stop_agrees: "agrees W dir a \<Longrightarrow> agrees W dir (after_stop W' a)"
  by (erule agrees_kept) (auto simp: after_stop_def intro: spotify_restore_kept [OF surjective_pairing])

lemma stop_tunnel_agrees: "agrees W dir a \<Longrightarrow> agrees W dir (snd (stop_tunnel W' a))"
  by (simp add: stop_tunnel_def after_stop_agrees)

lemma reset_all_agrees:
  assumes "reads_back W dir" and "agrees W dir a"
  shows "agrees W dir (snd (reset_all W a))"
  using assms
  by (auto simp: reads_back_def agrees_def on_disk_def reset_all_def Let_def config_load_def
      read_to_string_def remove_file_def)

lemma renew_agrees:
  assumes "agrees W dir a"
  shows "agrees W dir (snd (renew W' a))"
proof (rule agrees_kept [OF assms])
  show "settings_kept dir (ap_store a) (ap_store (snd (renew W' a)))"
    using assms by (auto simp: renew_def agrees_def split: prod.split intro: renew_quietly_kept)
qed (simp_all add: renew_def split: prod.split)

end
