(* ===== verification/Shell.thy ===== *)
theory Shell
  imports Commands
begin

text \<open>
  What the commands of \<^verbatim>\<open>main.rs\<close> use of the desktop: the updater, the browser and the clipboard. What
  the update feed and the started programs do are arguments.
\<close>

section \<open>Browser and clipboard\<close>

text \<open>The programs \<^verbatim>\<open>open_in_browser\<close> starts on Windows, in order; \<open>spawns\<close> says which can be started.\<close>

definition open_in_browser :: "(command \<Rightarrow> bool) \<Rightarrow> string \<Rightarrow> command list" where
  "open_in_browser spawns url =
     (let handler = (''rundll32.exe'', [''url.dll,FileProtocolHandler'', url]) in
      if spawns handler then [handler] else [handler, (''explorer.exe'', [url])])"

text \<open>\<^verbatim>\<open>copy_text\<close> on Windows: the clipboard program is started, written to and waited for.\<close>

record clip =
  cl_spawn :: "unit result"
  cl_stdin :: bool
  cl_write :: "unit result"
  cl_wait :: "unit result"

definition copy_text :: "clip \<Rightarrow> unit result" where
  "copy_text c =
     (case cl_spawn c of
        Err e \<Rightarrow> Err e
      | Ok _ \<Rightarrow>
          if \<not> cl_stdin c then Err ''no stdin''
          else case cl_write c of Err e \<Rightarrow> Err e | Ok _ \<Rightarrow> cl_wait c)"

section \<open>Updates\<close>

record update =
  up_version :: string
  up_body :: "string option"

record update_info =
  ui_available :: bool
  ui_current :: string
  ui_version :: string
  ui_notes :: string

text \<open>
  The updater plugin: whether an address can be a proxy, the updater built with or without one, what
  a check of the feed finds, and what downloading and installing comes to.
\<close>

record 'u plugin =
  pl_parse :: "string \<Rightarrow> bool"
  pl_build :: "string option \<Rightarrow> 'u result"
  pl_check :: "'u \<Rightarrow> update option result"
  pl_install :: "'u \<Rightarrow> update \<Rightarrow> unit result"

definition updater_for :: "'u plugin \<Rightarrow> world \<Rightarrow> app \<Rightarrow> 'u result" where
  "updater_for P W a =
     (let proxy = pi_url (detect_for (wd_sys W) (ap_last_good a) (cfg_proxy (ap_cfg a)) ''https://github.com'') in
      case pl_build P (if proxy \<noteq> [] \<and> pl_parse P proxy then Some proxy else None) of
        Err e \<Rightarrow> Err (''updater unavailable: '' @ e)
      | Ok u \<Rightarrow> Ok u)"

definition check_update :: "'u plugin \<Rightarrow> world \<Rightarrow> string \<Rightarrow> app \<Rightarrow> update_info result" where
  "check_update P W version a =
     (case updater_for P W a of
        Err e \<Rightarrow> Err e
      | Ok u \<Rightarrow>
          (case pl_check P u of
             Err e \<Rightarrow> Err (''could not check for updates: '' @ e)
           | Ok None \<Rightarrow>
               Ok \<lparr>ui_available = False, ui_current = version, ui_version = version, ui_notes = []\<rparr>
           | Ok (Some up) \<Rightarrow>
               Ok \<lparr>ui_available = True, ui_current = version, ui_version = up_version up,
                   ui_notes = unwrap_or [] (up_body up)\<rparr>))"

text \<open>When it does not fail, \<^verbatim>\<open>install_update\<close> restarts the program.\<close>

definition install_update :: "'u plugin \<Rightarrow> world \<Rightarrow> app \<Rightarrow> unit result" where
  "install_update P W a =
     (case updater_for P W a of
        Err e \<Rightarrow> Err e
      | Ok u \<Rightarrow>
          (case pl_check P u of
             Err e \<Rightarrow> Err (''could not check for updates: '' @ e)
           | Ok None \<Rightarrow> Err ''no update available''
           | Ok (Some up) \<Rightarrow>
               (case pl_install P u up of
                  Err e \<Rightarrow> Err (''update failed: '' @ e)
                | Ok _ \<Rightarrow> Ok ())))"

end
