(* ===== verification/Program.thy ===== *)
theory Program
  imports Disk Shell "HOL-Library.Countable"
begin

text \<open>
  The whole program of \<^verbatim>\<open>main.rs\<close>: what \<^verbatim>\<open>main\<close> sets up, the table of its commands, the window and the
  tray, the threads of sign-ins and of the supervisor, as one state and the events that drive it. A
  command is one step, except those that wait for others while they work: a sign-in, a cancellation
  and a sign-out are threads of \<open>Sign_In\<close>; \<^verbatim>\<open>discover\<close> reads the settings when it begins and writes
  them when the server has answered; and \<^verbatim>\<open>save_config\<close> and \<^verbatim>\<open>stop_tunnel\<close> can be taken in their parts.
  The workers of the supervisor step by themselves, and processes end when they like.
\<close>

section \<open>Surroundings\<close>

record 'u surroundings =
  so_world :: world
  so_show_error :: "http_error \<Rightarrow> string"
  so_exe :: "path result"
  so_version :: string
  so_net :: netenv
  so_peer :: "u16 \<Rightarrow> socks_peer"
  so_clip :: "string \<Rightarrow> clip"
  so_netstat :: "string option"
  so_tasklist :: "string option"
  so_walk :: "(u32 \<times> u16 list) list \<Rightarrow> (u32 \<times> u16 list) list"
  so_accent :: "(bool \<times> string) option"
  so_plugin :: "'u plugin"

section \<open>The table of commands\<close>

text \<open>
  The commands that are one step. The other five of the table, \<^verbatim>\<open>sign_in\<close>, \<^verbatim>\<open>cancel_sign_in\<close>,
  \<^verbatim>\<open>sign_out\<close>, \<^verbatim>\<open>discover\<close> and \<^verbatim>\<open>install_update\<close>, have events of their own below.
\<close>

datatype request =
    GetConfig | SaveConfig config | GetStatus | StartTunnel | StopTunnel | SocksOk
  | PageantRunning | ToolPaths | SetAutostart bool | AutostartEnabled | CheckServer string
  | Diagnostics | AppVersion | CopyText string | NetworkTest | CheckUpdate
  | SpotifyState | SpotifyApply | SpotifyRestore | ConnectedApps | SystemAccent | ResetAll
  | AuthState | EnrollmentRecord | Renew

datatype answered =
    AConfig config | AStatus status | AUnit "unit result" | ABool bool | ABoolOr "bool result"
  | AText string | ATools "string \<times> string \<times> string \<times> bool" | AProbe server_probe
  | ADiagnosis diagnosis | AChecks "check list" | AUpdate "update_info result"
  | ASpotify spotify_report | ASpotifyOr "spotify_report result" | AApps "client_app list"
  | AAccent "string option" | AAuth auth_state | ARecord "enrollment option"
  | ARenewed "enrollment result" | AOidc "oidc result"

fun invoke :: "'u surroundings \<Rightarrow> request \<Rightarrow> app \<Rightarrow> answered \<times> app" where
  "invoke S GetConfig a = (AConfig (get_config a), a)"
| "invoke S (SaveConfig cfg) a = map_prod AUnit id (save_config (so_world S) cfg a)"
| "invoke S GetStatus a = (AStatus (get_status a), a)"
| "invoke S StartTunnel a = map_prod AUnit id (start_tunnel (so_world S) a)"
| "invoke S StopTunnel a = map_prod AUnit id (stop_tunnel (so_world S) a)"
| "invoke S SocksOk a = (ABool (socks_ok (so_peer S) a), a)"
| "invoke S PageantRunning a = (ABool (pageant_running_command (so_world S)), a)"
| "invoke S ToolPaths a = (ATools (tool_paths (so_world S) a), a)"
| "invoke S (SetAutostart enabled) a =
     map_prod ABoolOr id (set_autostart (wd_run (so_world S)) (so_exe S) enabled a)"
| "invoke S AutostartEnabled a = (ABool (autostart_enabled (wd_run (so_world S))), a)"
| "invoke S (CheckServer base) a = map_prod AProbe id (check_server (so_world S) base a)"
| "invoke S Diagnostics a = (ADiagnosis (diagnostics (so_world S) (so_version S) a), a)"
| "invoke S AppVersion a = (AText (app_version (so_version S)), a)"
| "invoke S (CopyText text) a = (AUnit (copy_text (so_clip S text)), a)"
| "invoke S NetworkTest a = (AChecks (network_test (so_world S) (so_net S) a), a)"
| "invoke S CheckUpdate a =
     (AUpdate (check_update (so_plugin S) (so_world S) (so_version S) a), a)"
| "invoke S SpotifyState a = (ASpotify (spotify_state_command (so_world S) a), a)"
| "invoke S SpotifyApply a = map_prod ASpotifyOr id (spotify_apply_command (so_world S) a)"
| "invoke S SpotifyRestore a = map_prod AUnit id (spotify_restore_command (so_world S) a)"
| "invoke S ConnectedApps a =
     (AApps (connected_apps_command (so_walk S) (so_netstat S) (so_tasklist S) a), a)"
| "invoke S SystemAccent a = (AAccent (system_accent (so_accent S)), a)"
| "invoke S ResetAll a = map_prod AUnit id (reset_all (so_world S) a)"
| "invoke S AuthState a = (AAuth (auth_state_command a), a)"
| "invoke S EnrollmentRecord a = (ARecord (enrollment_command (so_world S) a), a)"
| "invoke S Renew a = map_prod ARenewed id (renew (so_world S) a)"

section \<open>State and events\<close>

datatype process_end = Exited | Restarted

text \<open>
  A command that is under way: settings saved and not yet set, a server asked, a tunnel being
  stopped by the \<open>n\<close>-th call of \<^verbatim>\<open>stop\<close>, or done.
\<close>

datatype job = Saved config | Asked string config | Stopping nat | Answered

record program =
  pg_app :: app
  pg_tasks :: "task list"
  pg_opened :: "string list"
  pg_jobs :: "job list"
  pg_answers :: "answered list"
  pg_visible :: bool
  pg_end :: "process_end option"

definition open_program :: "world \<Rightarrow> path \<Rightarrow> path \<Rightarrow> string list \<Rightarrow> store \<Rightarrow> program" where
  "open_program W dir bundled args st =
     \<lparr>pg_app = launch_app W dir bundled st, pg_tasks = [], pg_opened = [], pg_jobs = [],
      pg_answers = [], pg_visible = (''--minimised'' \<notin> set args), pg_end = None\<rparr>"

text \<open>The state a sign-in shares with the rest, as \<open>Sign_In\<close> has it.\<close>

definition signin_of :: "program \<Rightarrow> signin" where
  "signin_of p =
     \<lparr>sg_auth = ap_auth (pg_app p), sg_cancel = ap_cancel (pg_app p), sg_store = ap_store (pg_app p),
      sg_opened = pg_opened p, sg_tasks = pg_tasks p\<rparr>"

definition with_signin :: "signin \<Rightarrow> program \<Rightarrow> program" where
  "with_signin s p =
     p\<lparr>pg_app := (pg_app p)\<lparr>ap_auth := sg_auth s, ap_cancel := sg_cancel s, ap_store := sg_store s\<rparr>,
       pg_opened := sg_opened s, pg_tasks := sg_tasks s\<rparr>"

datatype 'u happening =
    Invoke "'u surroundings" request
  | InstallUpdate "'u surroundings"
  | BeginSave world config
  | BeginDiscover string
  | BeginStop
  | EndJob "'u surroundings" nat
  | BeginSignIn | BeginCancel | BeginSignOut
  | Thread world nat reply
  | Worker nat answer
  | Stopper nat
  | ProcessEnds nat
  | TrayMenu string
  | CloseRequested

text \<open>A thread that signs out stops the tunnel when it comes to \<^verbatim>\<open>sup.stop()\<close>.\<close>

definition at_stop :: "nat \<Rightarrow> program \<Rightarrow> bool" where
  "at_stop n p \<longleftrightarrow> n < length (pg_tasks p) \<and> tk_pc (pg_tasks p ! n) = OutStop"

definition signin_event :: "world \<Rightarrow> signin_event \<Rightarrow> program \<Rightarrow> program" where
  "signin_event W e p = with_signin (signin_next W (ap_dir (pg_app p)) e (signin_of p)) p"

definition supervise :: "event \<Rightarrow> program \<Rightarrow> program" where
  "supervise e p = p\<lparr>pg_app := (pg_app p)\<lparr>ap_sys := sys_next e (ap_sys (pg_app p))\<rparr>\<rparr>"

definition end_job :: "'u surroundings \<Rightarrow> nat \<Rightarrow> program \<Rightarrow> program" where
  "end_job S n p =
     (if length (pg_jobs p) \<le> n then p
      else
        let p1 = p\<lparr>pg_jobs := (pg_jobs p)[n := Answered]\<rparr> in
        case pg_jobs p ! n of
          Answered \<Rightarrow> p
        | Saved cfg \<Rightarrow>
            p1\<lparr>pg_app := set_config cfg (pg_app p), pg_answers := pg_answers p @ [AUnit (Ok ())]\<rparr>
        | Asked base snapshot \<Rightarrow>
            (case discover (so_world S) (so_show_error S) base snapshot (pg_app p) of
               (r, a) \<Rightarrow> p1\<lparr>pg_app := a, pg_answers := pg_answers p @ [AOidc r]\<rparr>)
        | Stopping k \<Rightarrow>
            if y_stoppers (ap_sys (pg_app p)) ! k \<noteq> StopDone then p
            else p1\<lparr>pg_app := after_stop (so_world S) (pg_app p), pg_answers := pg_answers p @ [AUnit (Ok ())]\<rparr>)"

fun program_step :: "'u happening \<Rightarrow> program \<Rightarrow> program" where
  "program_step (Invoke S req) p =
     (case invoke S req (pg_app p) of
        (r, a) \<Rightarrow> p\<lparr>pg_app := a, pg_answers := pg_answers p @ [r]\<rparr>)"
| "program_step (InstallUpdate S) p =
     (case install_update (so_plugin S) (so_world S) (pg_app p) of
        Err e \<Rightarrow> p\<lparr>pg_answers := pg_answers p @ [AUnit (Err e)]\<rparr>
      | Ok _ \<Rightarrow> p\<lparr>pg_end := Some Restarted\<rparr>)"
| "program_step (BeginSave W cfg) p =
     (case save_write W cfg (pg_app p) of
        (Err e, a) \<Rightarrow> p\<lparr>pg_app := a, pg_answers := pg_answers p @ [AUnit (Err e)]\<rparr>
      | (Ok _, a) \<Rightarrow> p\<lparr>pg_app := a, pg_jobs := pg_jobs p @ [Saved cfg]\<rparr>)"
| "program_step (BeginDiscover base) p =
     p\<lparr>pg_jobs := pg_jobs p @ [Asked base (ap_cfg (pg_app p))]\<rparr>"
| "program_step BeginStop p =
     (supervise EStop p)\<lparr>pg_jobs := pg_jobs p @ [Stopping (length (y_stoppers (ap_sys (pg_app p))))]\<rparr>"
| "program_step (EndJob S n) p = end_job S n p"
| "program_step BeginSignIn p =
     p\<lparr>pg_tasks := pg_tasks p @ [\<lparr>tk_pc = Prepare, tk_cfg = ap_cfg (pg_app p)\<rparr>]\<rparr>"
| "program_step BeginCancel p =
     p\<lparr>pg_tasks := pg_tasks p @ [\<lparr>tk_pc = CancelFlag, tk_cfg = default_config\<rparr>]\<rparr>"
| "program_step BeginSignOut p =
     p\<lparr>pg_tasks := pg_tasks p @ [\<lparr>tk_pc = OutFlag, tk_cfg = default_config\<rparr>]\<rparr>"
| "program_step (Thread W n rp) p =
     (let p1 = signin_event W (TaskStep n rp) p in
      if at_stop n p then p1\<lparr>pg_app := (pg_app p1)\<lparr>ap_sys := stop_now (ap_sys (pg_app p1))\<rparr>\<rparr> else p1)"
| "program_step (Worker n a) p = supervise (EWorker n a) p"
| "program_step (Stopper n) p = supervise (EStopper n) p"
| "program_step (ProcessEnds q) p = supervise (EExit q) p"
| "program_step (TrayMenu item) p =
     (if item = ''show'' then p\<lparr>pg_visible := True\<rparr>
      else if item = ''quit'' then p\<lparr>pg_end := Some Exited\<rparr>
      else p)"
| "program_step CloseRequested p = p\<lparr>pg_visible := False\<rparr>"

text \<open>Once the program has ended its threads are gone; the processes it started are not.\<close>

definition program_next :: "'u happening \<Rightarrow> program \<Rightarrow> program" where
  "program_next e p =
     (case pg_end p of
        None \<Rightarrow> program_step e p
      | Some _ \<Rightarrow> (case e of ProcessEnds q \<Rightarrow> program_step e p | _ \<Rightarrow> p))"

definition program_run :: "'u happening list \<Rightarrow> program \<Rightarrow> program" where
  "program_run es p = fold program_next es p"

lemma program_run_simps [simp]:
  "program_run [] p = p"
  "program_run (e # es) p = program_run es (program_next e p)"
  "program_run (es @ fs) p = program_run fs (program_run es p)"
  by (simp_all add: program_run_def)

section \<open>The supervisor inside the program\<close>

definition sys_of :: "program \<Rightarrow> sys" where
  "sys_of p = ap_sys (pg_app p)"

fun starts_tunnel :: "'u happening \<Rightarrow> bool" where
  "starts_tunnel (Invoke S StartTunnel) = True"
| "starts_tunnel e = False"

fun permits :: "'u happening \<Rightarrow> event \<Rightarrow> bool" where
  "permits e (EStart t cfg via) = starts_tunnel e"
| "permits e (EWorker n a) = (e = Worker n a)"
| "permits e f = True"

definition drives :: "'u happening \<Rightarrow> sys \<Rightarrow> sys \<Rightarrow> bool" where
  "drives e y z \<longleftrightarrow> (\<exists>fs. z = fold sys_next fs y \<and> list_all (permits e) fs)"

lemma drives_refl [simp]: "drives e y y"
  unfolding drives_def by (intro exI [of _ "[]"]) simp

lemma drives_one: "permits e f \<Longrightarrow> drives e y (sys_next f y)"
  unfolding drives_def by (intro exI [of _ "[f]"]) simp

lemma drives_start [simp]: "starts_tunnel e \<Longrightarrow> drives e y (start t cfg via y)"
  using drives_one [of e "EStart t cfg via"] by simp

lemma drives_stop [simp]: "drives e y (stop_now y)"
  unfolding drives_def stop_now_def run_def
  by (intro exI [of _ "stop_call (length (y_stoppers y))"]) (simp add: stop_call_def list_all_iff)

lemma after_stop_simps [simp]:
  "ap_sys (after_stop W a) = ap_sys a" "ap_auth (after_stop W a) = ap_auth a" "ap_dir (after_stop W a) = ap_dir a"
  by (simp_all add: after_stop_def)

lemma start_tunnel_sys:
  "ap_sys (snd (start_tunnel W a)) = ap_sys a \<or> (\<exists>t cfg via. ap_sys (snd (start_tunnel W a)) = start t cfg via (ap_sys a))"
  by (auto simp: start_tunnel_def launch_tunnel_def Let_def split: sum.split prod.split option.split)

lemma save_config_sys: "ap_sys (snd (save_config W cfg a)) = ap_sys a"
  by (auto simp: save_config_def save_write_def set_config_def split: prod.splits sum.splits)

lemma invoke_drives: "drives (Invoke S req) (ap_sys a) (ap_sys (snd (invoke S req a)))"
  using start_tunnel_sys [of "so_world S" a]
  by (cases req)
    (auto simp: save_config_sys stop_tunnel_def
      set_autostart_def check_server_def remember_proxy_def Let_def spotify_apply_command_def
      spotify_restore_command_def reset_all_def renew_def split: sum.split prod.split http_error.split)

lemma discover_sys [simp]: "ap_sys (snd (discover W show base snapshot a)) = ap_sys a"
  by (simp add: discover_def Let_def split: sum.split prod.split)

lemma with_signin_simps [simp]:
  "ap_sys (pg_app (with_signin s p)) = ap_sys (pg_app p)"
  "ap_dir (pg_app (with_signin s p)) = ap_dir (pg_app p)"
  "ap_cfg (pg_app (with_signin s p)) = ap_cfg (pg_app p)"
  "ap_store (pg_app (with_signin s p)) = sg_store s"
  "signin_of (with_signin s p) = s" "pg_jobs (with_signin s p) = pg_jobs p"
  by (simp_all add: with_signin_def signin_of_def)

lemma end_job_sys: "sys_of (end_job S n p) = sys_of p"
  using discover_sys [of "so_world S" "so_show_error S" _ _ "pg_app p"]
  by (auto simp: end_job_def sys_of_def set_config_def Let_def simp del: discover_sys
      split: job.split prod.split) (metis snd_conv)

lemma program_step_drives: "drives e (sys_of p) (sys_of (program_step e p))"
proof (cases e)
  case (Invoke S req)
  then show ?thesis using invoke_drives [of S req "pg_app p"] by (simp add: sys_of_def case_prod_unfold)
next
  case (BeginSave W cfg)
  then show ?thesis by (simp add: sys_of_def save_write_def split: prod.split sum.split)
next
  case (Worker n a)
  then show ?thesis using drives_one [of e "EWorker n a"] by (simp add: sys_of_def supervise_def)
next
  case BeginStop
  then show ?thesis using drives_one [of e EStop] by (simp add: sys_of_def supervise_def)
next
  case (Stopper n)
  then show ?thesis using drives_one [of e "EStopper n"] by (simp add: sys_of_def supervise_def)
next
  case (ProcessEnds q)
  then show ?thesis using drives_one [of e "EExit q"] by (simp add: sys_of_def supervise_def)
next
  case (EndJob S n)
  then show ?thesis by (simp add: end_job_sys)
qed (simp_all add: sys_of_def signin_event_def Let_def split: sum.split)

lemma program_next_drives: "drives e (sys_of p) (sys_of (program_next e p))"
  by (auto simp: program_next_def program_step_drives split: option.split happening.split
      simp del: program_step.simps)

interpretation driving: invariant_simulation sys_next "\<lambda>_. True" shared_ok program_next sys_of permits
proof unfold_locales
  fix e :: "'u happening" and p
  show "\<exists>fs. sys_of (program_next e p) = fold sys_next fs (sys_of p) \<and> list_all (permits e) fs"
    using program_next_drives [of e p] by (simp add: drives_def)
next
  fix y e
  assume "shared_ok y"
  then show "shared_ok (sys_next e y)" using sys_next_step [of e y] shared_ok_step by metis
qed simp

lemma worker_event: "program_next (Worker n a) p = p \<or> sys_of (program_next (Worker n a) p) = sys_next (EWorker n a) (sys_of p)"
  by (cases "pg_end p") (simp_all add: program_next_def supervise_def sys_of_def)

text \<open>
  A run is calm when no tunnel is started while a worker of an earlier one is still on its way, which
  is what the owner of the supervisor's processes asks for.
\<close>

definition calm_happening :: "'u happening \<Rightarrow> program \<Rightarrow> bool" where
  "calm_happening e p \<longleftrightarrow>
     (starts_tunnel e \<longrightarrow>
        s_running (y_sup (sys_of p)) \<or> (\<forall>w \<in> set (y_workers (sys_of p)). finished (w_pc w)))"

fun calm_program :: "'u happening list \<Rightarrow> program \<Rightarrow> bool" where
  "calm_program [] p = True"
| "calm_program (e # es) p = (calm_happening e p \<and> calm_program es (program_next e p))"

lemma calm_program_append:
  "calm_program (es @ fs) p \<longleftrightarrow> calm_program es p \<and> calm_program fs (program_run es p)"
  by (induction es arbitrary: p) auto

lemma calm_program_without_start: "list_all (\<lambda>e. \<not> starts_tunnel e) es \<Longrightarrow> calm_program es p"
  by (induction es arbitrary: p) (auto simp: calm_happening_def)

lemma permits_start: "permits e f \<Longrightarrow> \<not> starts_tunnel e \<Longrightarrow> \<not> is_start f"
  by (cases f) auto

lemma drives_without_start:
  assumes "\<not> starts_tunnel e"
  obtains fs where "sys_of (program_next e p) = run fs (sys_of p)" and "\<forall>f \<in> set fs. \<not> is_start f"
  using program_next_drives [of e p] permits_start assms
  by (fastforce simp: drives_def run_def list_all_iff)

lemma sole_ok_calm: "sole_ok y \<Longrightarrow> calm_run es y \<Longrightarrow> sole_ok (run es y)"
  using calm_sys.run_inv calm_run_reaches by blast

lemma sole_ok_program:
  assumes "sole_ok (sys_of p)" and "calm_happening e p"
  shows "sole_ok (sys_of (program_next e p))"
proof (cases "starts_tunnel e")
  case False
  then obtain fs where fs: "sys_of (program_next e p) = run fs (sys_of p)" "\<forall>f \<in> set fs. \<not> is_start f"
    by (rule drives_without_start)
  then show ?thesis using sole_ok_calm assms(1) calm_without_start by metis
next
  case True
  then obtain S where e: "e = Invoke S StartTunnel" using starts_tunnel.elims(2) by blast
  have "sole_ok (start t cfg via (sys_of p))" for t cfg via
    using sole_ok_next [OF assms(1), of "EStart t cfg via"] assms(2) True by (simp add: calm_happening_def list_all_iff)
  moreover have "sys_of (program_next e p) = sys_of p \<or>
      sys_of (program_next e p) = ap_sys (snd (start_tunnel (so_world S) (pg_app p)))"
    by (cases "pg_end p") (simp_all add: e program_next_def sys_of_def case_prod_unfold)
  ultimately show ?thesis using assms(1) start_tunnel_sys [of "so_world S" "pg_app p"] by (auto simp: sys_of_def)
qed

lemma sole_ok_program_run: "sole_ok (sys_of p) \<Longrightarrow> calm_program es p \<Longrightarrow> sole_ok (sys_of (program_run es p))"
  by (induction es arbitrary: p) (simp_all add: sole_ok_program)

text \<open>What is left of the workers once the tunnel is stopped, as long as the program is open.\<close>

fun step_of_worker :: "nat \<Rightarrow> 'u happening \<Rightarrow> bool" where
  "step_of_worker n (Worker m a) = (m = n)"
| "step_of_worker n e = False"

definition program_left :: "nat \<Rightarrow> program \<Rightarrow> nat" where
  "program_left n p = (if pg_end p = None then work_left n (sys_of p) else 0)"

lemma ended_stays: "pg_end p \<noteq> None \<Longrightarrow> pg_end (program_next e p) \<noteq> None"
  by (cases e) (auto simp: program_next_def supervise_def)

lemma program_left_next:
  assumes "stopping len (sys_of p)" and "\<not> starts_tunnel e"
  shows "stopping len (sys_of (program_next e p)) \<and>
         program_left n (program_next e p) \<le> program_left n p - (if step_of_worker n e then 1 else 0)"
proof -
  obtain fs where fs: "sys_of (program_next e p) = run fs (sys_of p)" "\<forall>f \<in> set fs. \<not> is_start f"
    using drives_without_start [OF assms(2)] .
  have "stopping len (sys_of (program_next e p))" "work_left n (sys_of (program_next e p)) \<le> work_left n (sys_of p)"
    using stopped_run [of "sys_of p" fs n] fs assms(1) by (auto simp: stopping_def)
  moreover have "work_left n (sys_of (program_next e p)) \<le> work_left n (sys_of p) - 1"
    if own: "step_of_worker n e" and up: "pg_end p = None"
  proof -
    obtain a where e: "e = Worker n a" by (rule step_of_worker.elims(2) [OF own]) simp
    then have "sys_of (program_next e p) = sys_next (EWorker n a) (sys_of p)"
      using up by (simp add: program_next_def supervise_def sys_of_def)
    with work_left_next [OF assms(1), of "EWorker n a" n] show ?thesis by simp
  qed
  ultimately show ?thesis using ended_stays [of p e] by (auto simp: program_left_def)
qed

interpretation winding_down: progress_system program_next "\<lambda>e. \<not> starts_tunnel e" "\<lambda>p. stopping len (sys_of p)"
  "step_of_worker n" "program_left n" for len n
  by unfold_locales (simp_all add: program_left_next)

text \<open>The events that stop the tunnel at once: Disconnect, the reset, and the stop of a thread that signs out.\<close>

fun stops_tunnel :: "'u happening \<Rightarrow> program \<Rightarrow> bool" where
  "stops_tunnel (Invoke S StopTunnel) p = True"
| "stops_tunnel (Invoke S ResetAll) p = True"
| "stops_tunnel (Thread W n rp) p = at_stop n p"
| "stops_tunnel e p = False"

lemma stops_tunnel_stops:
  assumes "stops_tunnel e p" and "pg_end p = None"
  shows "sys_of (program_next e p) = stop_now (sys_of p) \<and> \<not> starts_tunnel e"
  using assms
  by (cases "(e, p)" rule: stops_tunnel.cases)
    (simp_all add: program_next_def sys_of_def stop_tunnel_def reset_all_def Let_def signin_event_def)

text \<open>Only a worker's own step makes the program claim a connection.\<close>

interpretation unclaimed: event_system sys_next "\<lambda>f. \<forall>n a. f \<noteq> EWorker n a" "\<lambda>y. \<not> claims y"
  by unfold_locales (use claims_next in blast)

lemma claims_program:
  assumes "\<not> claims (sys_of p)" and "claims (sys_of (program_next e p))"
  shows "\<exists>n a i q. e = Worker n a \<and> a_reach a \<and> n < length (y_workers (sys_of p)) \<and>
           w_pc (y_workers (sys_of p) ! n) = StartProbe i q"
proof (cases "\<exists>n a. e = Worker n a")
  case True
  then obtain n a where e: "e = Worker n a" by blast
  then have "claims (sys_next (EWorker n a) (sys_of p))"
    using assms worker_event [of n a p] by metis
  from claims_next [OF assms(1) this] e show ?thesis by blast
next
  case False
  obtain fs where fs: "sys_of (program_next e p) = fold sys_next fs (sys_of p)" "list_all (permits e) fs"
    using program_next_drives [of e p] by (auto simp: drives_def)
  have "permits e f \<Longrightarrow> \<forall>n a. f \<noteq> EWorker n a" for f using False by (cases f) auto
  with fs(2) have "list_all (\<lambda>f. \<forall>n a. f \<noteq> EWorker n a) fs" by (auto simp: list_all_iff)
  with unclaimed.fold_inv [OF assms(1)] fs(1) assms(2) show ?thesis by metis
qed

section \<open>The settings inside the program\<close>

text \<open>
  The events of a run in which the disk behaves as in \<open>W\<close> and no save is cut in two: what commands
  answer and what threads of a sign-in meet is free otherwise.
\<close>

definition same_disk :: "world \<Rightarrow> world \<Rightarrow> bool" where
  "same_disk W W' \<longleftrightarrow>
     wd_io W' = wd_io W \<and> wd_cfg_ser W' = wd_cfg_ser W \<and> wd_cfg_de W' = wd_cfg_de W"

fun whole_saves :: "world \<Rightarrow> 'u happening \<Rightarrow> bool" where
  "whole_saves W (Invoke S req) = same_disk W (so_world S)"
| "whole_saves W (EndJob S n) = same_disk W (so_world S)"
| "whole_saves W (BeginSave W' cfg) = False"
| "whole_saves W e = True"

definition settled :: "world \<Rightarrow> path \<Rightarrow> program \<Rightarrow> bool" where
  "settled W dir p \<longleftrightarrow>
     reads_back W dir \<and> agrees W dir (pg_app p) \<and> (\<forall>j \<in> set (pg_jobs p). \<forall>cfg. j \<noteq> Saved cfg)"

lemma same_disk_laws:
  "same_disk W W' \<Longrightarrow> reads_back W' dir = reads_back W dir \<and> agrees W' dir a = agrees W dir a"
  by (simp add: same_disk_def reads_back_def agrees_def on_disk_def)

lemma invoke_agrees:
  assumes "reads_back (so_world S) dir" and "agrees (so_world S) dir a"
  shows "agrees (so_world S) dir (snd (invoke S req a))"
proof -
  have kept: "agrees (so_world S) dir (a\<lparr>ap_store := st\<rparr>)" if "settings_kept dir (ap_store a) st" for st
    by (rule agrees_kept [OF assms(2)]) (simp_all add: that)
  show ?thesis
    by (cases req)
      (use assms kept spotify_apply_kept spotify_restore_kept in
        \<open>auto simp: save_config_agrees start_tunnel_agrees stop_tunnel_agrees check_server_agrees
          reset_all_agrees renew_agrees set_autostart_def spotify_apply_command_def
          spotify_restore_command_def split: prod.split sum.split\<close>)
qed

lemma end_job_settled:
  assumes "settled W dir p" and "same_disk W (so_world S)"
  shows "settled W dir (end_job S n p)"
proof (cases "n < length (pg_jobs p)")
  case True
  have ok: "reads_back (so_world S) dir" "agrees (so_world S) dir (pg_app p)"
    and jobs: "\<forall>j \<in> set (pg_jobs p). \<forall>cfg. j \<noteq> Saved cfg"
    using assms same_disk_laws by (auto simp: settled_def)
  have jobs': "\<forall>j \<in> set ((pg_jobs p)[n := Answered]). \<forall>cfg. j \<noteq> Saved cfg"
    using jobs set_update_subset_insert [of "pg_jobs p" n Answered] by blast
  show ?thesis
  proof (cases "pg_jobs p ! n")
    case (Saved cfg)
    then show ?thesis using jobs True nth_mem by blast
  next
    case (Asked base snapshot)
    have "agrees (so_world S) dir (snd (discover (so_world S) (so_show_error S) base snapshot (pg_app p)))"
      by (rule discover_agrees [OF ok])
    then show ?thesis using assms True Asked jobs' same_disk_laws [OF assms(2)]
      by (simp add: settled_def end_job_def Let_def case_prod_unfold)
  next
    case (Stopping k)
    then show ?thesis using assms True jobs' after_stop_agrees [of W dir "pg_app p" "so_world S"]
      by (simp add: settled_def end_job_def Let_def)
  next
    case Answered
    then show ?thesis using assms(1) by (simp add: end_job_def Let_def)
  qed
qed (use assms in \<open>simp add: end_job_def\<close>)

lemma signin_event_agrees:
  assumes "agrees W dir (pg_app p)"
  shows "agrees W dir (pg_app (signin_event W' e p))"
proof (rule agrees_kept [OF assms])
  show "settings_kept dir (ap_store (pg_app p)) (ap_store (pg_app (signin_event W' e p)))"
    using signin_next_kept [of dir "signin_of p" W' e] assms
    by (simp add: signin_event_def agrees_def signin_of_def)
qed (simp_all add: signin_event_def)

lemma settled_step:
  assumes "settled W dir p" and "whole_saves W e"
  shows "settled W dir (program_step e p)"
proof (cases e)
  case (Invoke S req)
  then show ?thesis
    using assms invoke_agrees [of S dir "pg_app p" req] same_disk_laws [of W "so_world S" dir]
    by (simp add: settled_def case_prod_unfold)
next
  case (EndJob S n)
  then show ?thesis using assms end_job_settled by simp
next
  case (Thread W' n rp)
  then show ?thesis
    using assms signin_event_agrees [of W dir p W' "TaskStep n rp"]
    by (simp add: settled_def Let_def signin_event_def)
qed (use assms in \<open>auto simp: settled_def supervise_def split: sum.split\<close>)

interpretation settling: event_system program_next "whole_saves W" "settled W dir" for W dir
  by unfold_locales
    (auto simp: program_next_def settled_step simp del: program_step.simps
      split: option.split happening.split)

lemma open_settled: "reads_back W dir \<Longrightarrow> settled W dir (open_program W dir bundled args st)"
  by (simp add: settled_def open_program_def agrees_def on_disk_def launch_app_def Let_def)

section \<open>Signed in, in the whole program\<close>

lemma promises_signin: "promises (signin_of p) email expires \<longleftrightarrow>
    ap_auth (pg_app p) = SignedIn email expires \<or> (\<exists>k \<in> set (pg_tasks p). tk_pc k = ShowSignedIn email expires)"
  by (simp add: promises_def signin_of_def)

lemma start_tunnel_auth:
  "ap_auth (snd (start_tunnel W a)) = SignedIn email expires \<Longrightarrow> ap_auth a = SignedIn email expires"
  by (auto simp: start_tunnel_def launch_tunnel_def current_record_def Let_def
      split: sum.splits prod.splits option.splits if_splits)

lemma save_config_auth: "ap_auth (snd (save_config W cfg a)) = ap_auth a"
  by (auto simp: save_config_def save_write_def set_config_def split: prod.splits sum.splits)

lemma invoke_auth:
  "ap_auth (snd (invoke S req a)) = SignedIn email expires \<Longrightarrow> ap_auth a = SignedIn email expires"
  by (cases req)
    (auto simp: save_config_auth stop_tunnel_def set_autostart_def check_server_def remember_proxy_def Let_def
      spotify_apply_command_def spotify_restore_command_def reset_all_def renew_def
      dest: start_tunnel_auth split: sum.splits prod.splits http_error.splits if_splits)

lemma discover_auth: "ap_auth (snd (discover W sh base snapshot a)) = ap_auth a"
  by (simp add: discover_def Let_def split: sum.split prod.split)

lemma end_job_auth:
  "ap_auth (pg_app (end_job S n p)) = ap_auth (pg_app p)" "pg_tasks (end_job S n p) = pg_tasks p"
  by (simp_all add: end_job_def set_config_def Let_def case_prod_unfold discover_auth split: job.split)

lemma program_promises:
  assumes "promises (signin_of (program_next e p)) email expires" and "\<not> promises (signin_of p) email expires"
  shows "\<exists>W n rp t v r. e = Thread W n rp \<and> n < length (pg_tasks p) \<and> tk_pc (pg_tasks p ! n) = Install t v \<and>
           fst (install (wd_enr_ser W) (wd_io W) (wd_now W) (ap_dir (pg_app p)) v (ap_store (pg_app p))) = Ok r \<and>
           email = shown_email t r \<and> expires = enr_expires_at r"
proof (cases e)
  case (Thread W n rp)
  let ?s = "signin_next W (ap_dir (pg_app p)) (TaskStep n rp) (signin_of p)"
  have "signin_of (program_next e p) = signin_of p \<or> signin_of (program_next e p) = ?s"
    using Thread by (cases "pg_end p")
      (simp_all add: program_next_def Let_def signin_event_def, simp add: signin_of_def with_signin_def)
  then have "promises ?s email expires" using assms by metis
  from promises_next [OF this assms(2)] Thread show ?thesis by (auto simp: signin_of_def)
next
  case (Invoke S req)
  then show ?thesis using assms invoke_auth [of S req "pg_app p"]
    by (cases "pg_end p") (auto simp: program_next_def promises_signin case_prod_unfold)
qed (use assms in \<open>auto simp: program_next_def promises_signin end_job_auth supervise_def save_write_def
       split: option.splits sum.splits prod.splits if_splits\<close>)

section \<open>Properties\<close>

text \<open>
  (C5) Disconnecting ends the tunnel, and so do the reset and a sign-out that comes to its stop: after
  any run in which no tunnel was started over a worker still on its way, when one of them happens and
  then, while the program stays open, every worker gets twelve more steps and nothing is started, all
  workers have ended, whatever else happens in between; and unless the last one ended because a
  program could not be started, the status shown is Stopped, both slots are empty and no process is left.
\<close>

theorem program_stop_shuts_down:
  fixes es fs :: "'u happening list"
  assumes "p = program_run es (open_program W dir bundled args st)"
    and "calm_program es (open_program W dir bundled args st)" and "stops_tunnel e p"
    and "list_all (\<lambda>f. \<not> starts_tunnel f) fs" and "p' = program_run (e # fs) p" and "pg_end p' = None"
    and "\<forall>n < length (y_workers (ap_sys (pg_app p'))). 12 \<le> length (filter (step_of_worker n) fs)"
  shows "(\<forall>w \<in> set (y_workers (ap_sys (pg_app p'))). finished (w_pc w)) \<and>
         (current (ap_sys (pg_app p')) \<noteq> Failed \<longrightarrow>
            get_status (pg_app p') = Stopped \<and> s_child (y_sup (ap_sys (pg_app p'))) = None \<and>
            s_relay (y_sup (ap_sys (pg_app p'))) = None \<and> s_alive (y_sup (ap_sys (pg_app p'))) = {})"
proof -
  let ?o = "open_program W dir bundled args st" and ?q = "program_next e p"
  have p': "p' = fold program_next fs ?q" using assms(5) by (simp add: program_run_def)
  have stays: "pg_end q = None" if "pg_end (program_run gs q) = None" for q and gs :: "'u happening list"
    using that by (induction gs arbitrary: q) (auto dest: ended_stays)
  have "pg_end p = None" using stays [of "e # fs" p] assms(5,6) by simp
  from stops_tunnel_stops [OF assms(3) this]
  have stop: "stopping (length (y_workers (sys_of ?q))) (sys_of ?q)" and quiet: "\<not> starts_tunnel e"
    by (simp_all add: stopping_def stop_now_effect)
  have open_sys: "sys_of ?o = sys_new" by (simp add: sys_of_def open_program_def launch_app_def Let_def)
  have "calm_program (es @ e # fs) ?o"
    using assms(2,4) quiet by (simp add: calm_program_append calm_program_without_start calm_happening_def)
  then have sole: "sole_ok (sys_of p')"
    using sole_ok_program_run [of ?o "es @ e # fs"] assms(1,5) by (simp add: open_sys sole_ok_new)
  have len: "length (y_workers (sys_of p')) = length (y_workers (sys_of ?q))"
    using winding_down.fold_inv [OF stop assms(4)] by (simp add: p' stopping_def)
  have "finished (w_pc (y_workers (sys_of p') ! n))" if "n < length (y_workers (sys_of p'))" for n
  proof -
    have "program_left n ?q \<le> 12" using rank_le by (simp add: program_left_def work_left_def)
    moreover have "12 \<le> length (filter (step_of_worker n) fs)" using that assms(7) by (simp add: sys_of_def)
    ultimately have "program_left n p' = 0"
      using winding_down.done_after [OF stop assms(4), of n] unfolding p' by linarith
    then show ?thesis using that assms(6) by (simp add: program_left_def work_left_def flip: rank_0)
  qed
  then have "\<forall>w \<in> set (y_workers (sys_of p')). finished (w_pc w)" by (metis in_set_conv_nth)
  with sole_ok_finished [OF sole this] show ?thesis by (simp add: sys_of_def get_status_def sup_status_def)
qed

text \<open>
  (C14) The status the window shows is backed: in every run of the program it is Connected only while some
  worker stands between having announced the connection and announcing what came of it, that is, while it
  stores, watches or takes back its client or is about to write the next status (so for the last few
  steps of these the client may be gone already); a process is in the client slot only while a worker
  watches it, and every worker waits 5, 10, 20, 40 or 60 seconds between attempts.
\<close>

theorem program_status_backed:
  assumes "y = ap_sys (pg_app (program_run es (open_program W dir bundled args st)))"
  shows "(get_status (pg_app (program_run es (open_program W dir bundled args st))) = Connected \<longrightarrow>
            (\<exists>w \<in> set (y_workers y). online (w_pc w))) \<and>
         (s_child (y_sup y) \<noteq> None \<longrightarrow> (\<exists>w \<in> set (y_workers y). watching (w_pc w))) \<and>
         (\<forall>w \<in> set (y_workers y). w_backoff w \<in> {5, 10, 20, 40, 60})"
proof -
  let ?p = "open_program W dir bundled args st"
  have "shared_ok (sys_of ?p)"
    by (simp add: sys_of_def open_program_def launch_app_def Let_def shared_ok_new)
  then have "shared_ok (sys_of (fold program_next es ?p))"
    using driving.whole.fold_inv [of ?p es] by (simp add: list_all_iff)
  then show ?thesis
    by (simp add: assms shared_ok_def sys_of_def program_run_def backoffs_def get_status_def sup_status_def)
qed

text \<open>
  (C1) Connected is never shown on trust, in the whole program: if after any run the status is
  Connected, then some worker has completed a SOCKS handshake with the local port, at a moment when
  it was waiting for its client; no command, sign-in, click or ending process leads there otherwise.
\<close>

theorem program_connected_was_probed:
  assumes "get_status (pg_app (program_run es (open_program W dir bundled args st))) = Connected"
  shows "\<exists>pre n a post i q. es = pre @ Worker n a # post \<and> a_reach a \<and>
           n < length (y_workers (ap_sys (pg_app (program_run pre (open_program W dir bundled args st))))) \<and>
           w_pc (y_workers (ap_sys (pg_app (program_run pre (open_program W dir bundled args st)))) ! n) =
             StartProbe i q"
proof -
  let ?p = "open_program W dir bundled args st"
  have "claims (sys_of (fold program_next es ?p))" "\<not> claims (sys_of ?p)"
    using assms
    by (simp_all add: claims_def sys_of_def program_run_def get_status_def sup_status_def open_program_def
        launch_app_def Let_def sys_new_def sup_new_def)
  from fold_first [of "\<lambda>p. claims (sys_of p)", OF this] obtain pre e post
    where es: "es = pre @ e # post" and "\<not> claims (sys_of (fold program_next pre ?p))"
      "claims (sys_of (program_next e (fold program_next pre ?p)))" by blast
  from claims_program [OF this(2,3)] es show ?thesis unfolding sys_of_def program_run_def by blast
qed

text \<open>
  (C6) Signed in means enrolled, in the whole program: an email and an expiry are shown only if they were
  those of a valid record found at launch, or some thread has installed a certificate whose record
  has this expiry and this identity (or, when it names none, whose tokens carry this email).
\<close>

theorem program_signed_in:
  assumes "ap_auth (pg_app (program_run es (open_program W' dir bundled args st))) = SignedIn email expires"
  shows "initial_auth W' dir st = SignedIn email expires \<or>
         (\<exists>pre W n rp post p t v r. es = pre @ Thread W n rp # post \<and>
            p = program_run pre (open_program W' dir bundled args st) \<and>
            n < length (pg_tasks p) \<and> tk_pc (pg_tasks p ! n) = Install t v \<and>
            fst (install (wd_enr_ser W) (wd_io W) (wd_now W) (ap_dir (pg_app p)) v (ap_store (pg_app p))) = Ok r \<and>
            email = shown_email t r \<and> expires = enr_expires_at r)"
proof (cases "initial_auth W' dir st = SignedIn email expires")
  case False
  let ?p = "open_program W' dir bundled args st"
  have "promises (signin_of (fold program_next es ?p)) email expires" "\<not> promises (signin_of ?p) email expires"
    using assms False
    by (simp_all add: promises_signin program_run_def open_program_def launch_app_def Let_def)
  from fold_first [of "\<lambda>p. promises (signin_of p) email expires", OF this] program_promises
  show ?thesis unfolding program_run_def by metis
qed simp

text \<open>
  (C7) The settings on disk are the settings in use: on a disk where the settings file can be written,
  read and removed, with a serialiser whose texts are read as what was written, any run in which no
  save is cut in two leaves a file from which the next launch takes the settings of this one.
\<close>

theorem settings_on_disk:
  assumes "reads_back W dir" and "\<forall>e \<in> set es. whole_saves W e"
    and "a = pg_app (program_run es (open_program W dir bundled args st))"
  shows "ap_cfg (launch_app W dir bundled' (ap_store a)) = ap_cfg a"
proof -
  let ?p = "open_program W dir bundled args st"
  have "settled W dir (fold program_next es ?p)"
    using settling.fold_inv [OF open_settled [OF assms(1)]] assms(2) by (simp add: list_all_iff)
  then show ?thesis
    by (auto simp: assms(3) settled_def agrees_def on_disk_def launch_app_def Let_def program_run_def)
qed

text \<open>
  (C33) Two saves that cross leave two truths: \<^verbatim>\<open>save_config\<close> writes the file before it takes the lock, so
  when a second save does both its halves in between, both are confirmed, the program goes on with
  the settings of the first, and the file, and with it the next launch, has those of the second.
\<close>

theorem saves_cross:
  assumes "reads_back W (ap_dir (pg_app p))" and "pg_end p = None" and "m = length (pg_jobs p)"
    and "p' = program_run [BeginSave W first, BeginSave W second, EndJob S (Suc m), EndJob S m] p"
  shows "pg_answers p' = pg_answers p @ [AUnit (Ok ()), AUnit (Ok ())] \<and>
         ap_cfg (pg_app p') = first \<and>
         ap_cfg (launch_app W (ap_dir (pg_app p')) bundled (ap_store (pg_app p'))) = second"
proof -
  let ?save = "\<lambda>c st. config_save (wd_cfg_ser W) (wd_io W) (ap_dir (pg_app p)) c st"
  obtain st1 where 1: "?save first (ap_store (pg_app p)) = (Ok (), st1)"
    using saved_settings [OF assms(1)] by blast
  obtain st2 where 2: "?save second st1 = (Ok (), st2)"
    "config_load (wd_cfg_de W) (wd_io W) (ap_dir (pg_app p)) st2 = second"
    using saved_settings [OF assms(1)] by blast
  have "p' = p\<lparr>pg_app := (pg_app p)\<lparr>ap_store := st2, ap_cfg := first\<rparr>,
      pg_jobs := pg_jobs p @ [Answered, Answered],
      pg_answers := pg_answers p @ [AUnit (Ok ()), AUnit (Ok ())]\<rparr>"
    using assms(2,3) 1 2(1)
    by (simp add: assms(4) program_next_def save_write_def end_job_def set_config_def nth_append
        list_update_append)
  then show ?thesis using 2(2) by (simp add: launch_app_def Let_def)
qed

text \<open>
  Threads left alone do what their commands say: a cancellation that runs its two steps without
  another's in between changes the application as \<^verbatim>\<open>cancel_sign_in\<close> written in sequence does, and a
  sign-out its five as \<^verbatim>\<open>sign_out\<close> does.
\<close>

theorem sign_out_in_sequence:
  assumes "pg_end p = None" and "n = length (pg_tasks p)"
  shows "pg_app (program_run (BeginCancel # replicate 2 (Thread W n rp)) p) = cancel_sign_in (pg_app p) \<and>
         pg_app (program_run (BeginSignOut # replicate 5 (Thread W n rp)) p) = sign_out W (pg_app p)"
  using assms
  by (simp add: program_next_def eval_nat_numeral Let_def at_stop_def signin_event_def signin_of_def
      with_signin_def task_step_def nth_append list_update_append cancel_sign_in_def sign_out_def)

lemma ended_run:
  "pg_end p \<noteq> None \<Longrightarrow>
   pg_end (program_run es p) = pg_end p \<and>
   s_alive (y_sup (sys_of (program_run es p))) = s_alive (y_sup (sys_of p)) - {q. ProcessEnds q \<in> set es}"
proof (induction es arbitrary: p)
  case (Cons e es)
  have "pg_end (program_next e p) = pg_end p \<and>
      s_alive (y_sup (sys_of (program_next e p))) = s_alive (y_sup (sys_of p)) - {q. ProcessEnds q = e}"
    using Cons.prems by (cases e) (auto simp: program_next_def supervise_def sys_of_def)
  with Cons.IH [of "program_next e p"] Cons.prems show ?case by auto
qed simp

text \<open>
  (C37) The tunnel outlives the window, and the program too: whatever sequence of closing the window
  and choosing from the tray leaves the application untouched, only \<^verbatim>\<open>quit\<close> ends the program, and
  after that no process of the tunnel ends but of itself, since nothing that could end it runs again.
\<close>

theorem tunnel_outlives_window:
  assumes "pg_end p = None" and "\<forall>e \<in> set es. e = CloseRequested \<or> (\<exists>item. e = TrayMenu item)"
  shows "pg_app (program_run es p) = pg_app p \<and>
         (pg_end (program_run es p) = None \<longleftrightarrow> TrayMenu ''quit'' \<notin> set es) \<and>
         (TrayMenu ''quit'' \<in> set es \<longrightarrow>
            s_alive (y_sup (ap_sys (pg_app (program_run (es @ fs) p)))) =
              s_alive (y_sup (ap_sys (pg_app p))) - {q. ProcessEnds q \<in> set fs})"
proof -
  have "pg_app (program_run es p) = pg_app p \<and>
      (pg_end (program_run es p) = None \<longleftrightarrow> TrayMenu ''quit'' \<notin> set es)"
    using assms(2)
  proof (induction es rule: rev_induct)
    case (snoc e es)
    then have e: "e = CloseRequested \<or> (\<exists>item. e = TrayMenu item)" by simp
    show ?case
      using snoc e by (cases "pg_end (program_run es p)") (auto simp: program_next_def split: if_splits)
  qed (simp add: assms(1))
  then show ?thesis using ended_run [of "program_run es p" fs] by (auto simp: sys_of_def)
qed

section \<open>Concrete runs\<close>

text \<open>A program that finds the record and tokens of \<open>sample_app\<close>, its tunnel started and connected.\<close>

definition sample_surroundings :: "world \<Rightarrow> unit surroundings" where
  "sample_surroundings W =
     \<lparr>so_world = W, so_show_error = (\<lambda>_. ''error''), so_exe = Ok [''app.exe''], so_version = ''1.0'',
      so_net = \<lparr>resolve = (\<lambda>_ _. Ok []), connect = (\<lambda>_ _. False),
                https_get = (\<lambda>_. Inl (TransportError ''timed out'')), elapsed = ''1s''\<rparr>,
      so_peer = (\<lambda>_. \<lparr>sp_connects = True, sp_accepts_write = True, sp_reply = [5, 0]\<rparr>),
      so_clip = (\<lambda>_. \<lparr>cl_spawn = Ok (), cl_stdin = True, cl_write = Ok (), cl_wait = Ok ()\<rparr>),
      so_netstat = None, so_tasklist = None, so_walk = (\<lambda>xs. xs), so_accent = None,
      so_plugin = \<lparr>pl_parse = (\<lambda>_. False), pl_build = (\<lambda>_. Ok ()), pl_check = (\<lambda>_. Ok None),
                   pl_install = (\<lambda>_ _. Ok ())\<rparr>\<rparr>"

definition sample_files :: store where
  "sample_files = ap_store sample_app"

definition sample_program :: program where
  "sample_program = open_program (sample_world 100) [''d''] [''b''] [] sample_files"

definition connecting :: "unit happening list" where
  "connecting = Invoke (sample_surroundings (sample_world 100)) StartTunnel #
     replicate 7 (Worker 0 (willing (\<lambda>_. None)))"

text \<open>The user resets the program while it is connected.\<close>

theorem program_stop_shuts_down_witness:
  "get_status (pg_app (program_run connecting sample_program)) = Connected \<and>
   s_alive (y_sup (ap_sys (pg_app (program_run
     (Invoke (sample_surroundings (sample_world 100)) ResetAll # replicate 12 (Worker 0 (willing (\<lambda>_. None))))
     (program_run connecting sample_program))))) = {}"
proof -
  let ?p = "program_run connecting sample_program" and ?w = "Worker 0 (willing (\<lambda>_. None)) :: unit happening"
  let ?e = "Invoke (sample_surroundings (sample_world 100)) ResetAll"
  let ?p' = "program_run (?e # replicate 12 ?w) ?p"
  have c: "calm_program connecting sample_program" "get_status (pg_app ?p) = Connected"
    "pg_end ?p' = None" "length (y_workers (ap_sys (pg_app ?p'))) = 1" "current (ap_sys (pg_app ?p')) \<noteq> Failed"
    by code_simp+
  have fs: "stops_tunnel ?e ?p" "list_all (\<lambda>f. \<not> starts_tunnel f) (replicate 12 ?w)"
    "\<forall>n < length (y_workers (ap_sys (pg_app ?p'))). 12 \<le> length (filter (step_of_worker n) (replicate 12 ?w))"
    unfolding c(4) by (simp_all add: list_all_iff)
  from program_stop_shuts_down [OF _ _ fs(1,2) refl c(3) fs(3), of connecting "sample_world 100" "[''d'']" "[''b'']" "[]" sample_files]
  show ?thesis using c by (simp add: sample_program_def)
qed

theorem program_status_backed_witness:
  "list_ex (\<lambda>w. online (w_pc w)) (y_workers (ap_sys (pg_app (program_run connecting sample_program))))"
proof -
  have "get_status (pg_app (program_run connecting sample_program)) = Connected" by code_simp
  then show ?thesis
    using program_status_backed [OF refl, of connecting "sample_world 100" "[''d'']" "[''b'']" "[]" sample_files]
    by (auto simp: sample_program_def list_ex_iff)
qed

theorem program_connected_was_probed_witness:
  "\<exists>pre n a post. connecting = pre @ Worker n a # post \<and> a_reach a"
proof -
  have "get_status (pg_app (program_run connecting sample_program)) = Connected" by code_simp
  from program_connected_was_probed [OF this [unfolded sample_program_def]] show ?thesis by blast
qed

text \<open>Somebody signs in, and the run is watched to the point where the state says so.\<close>

definition signing_in_program :: program where
  "signing_in_program = open_program ((sample_world 100)\<lparr>wd_cfg_de := (\<lambda>_. Some sample_signin_cfg)\<rparr>)
     [''d''] [''b''] [] ((\<lambda>_. None)(config_path [''d''] \<mapsto> ''cfg''))"

definition signing_in_run :: "unit happening list" where
  "signing_in_run = BeginSignIn # replicate 11 (Thread (sample_world 100) 0 sample_answers)"

theorem program_signed_in_witness:
  "list_ex (\<lambda>i. \<exists>t v. tk_pc (pg_tasks (program_run (take i signing_in_run) signing_in_program) ! 0) = Install t v)
     [0..<length signing_in_run]"
proof -
  let ?W = "(sample_world 100)\<lparr>wd_cfg_de := (\<lambda>_. Some sample_signin_cfg)\<rparr>"
  let ?st = "(\<lambda>_. None)(config_path [''d''] \<mapsto> ''cfg'') :: store"
  have si: "ap_auth (pg_app (program_run signing_in_run signing_in_program)) = SignedIn ''a@b'' 43300"
    by code_simp
  have out: "initial_auth ?W [''d''] ?st \<noteq> SignedIn ''a@b'' 43300" by code_simp
  from program_signed_in [OF si [unfolded signing_in_program_def]] out
  obtain pre W n rp post t v where es: "signing_in_run = pre @ Thread W n rp # post"
    and n: "n < length (pg_tasks (program_run pre signing_in_program))"
    and inst: "tk_pc (pg_tasks (program_run pre signing_in_program) ! n) = Install t v"
    unfolding signing_in_program_def by metis
  have "Thread W n rp \<in> set signing_in_run" unfolding es by simp
  then have "n = 0" by (simp add: signing_in_run_def)
  moreover have "take (length pre) signing_in_run = pre" "length pre < length signing_in_run" by (simp_all add: es)
  ultimately show ?thesis using inst unfolding list_ex_iff by (intro bexI [of _ "length pre"]) auto
qed

theorem sign_out_in_sequence_witness:
  "pg_app (program_run (BeginSignOut # replicate 5 (Thread (sample_world 100) 0 sample_answers) :: unit happening list)
     sample_program) = sign_out (sample_world 100) (pg_app sample_program) \<and>
   ap_auth (pg_app sample_program) = SignedIn ''a@b'' 50000"
proof -
  have p: "pg_end sample_program = None" "0 = length (pg_tasks sample_program)"
    "ap_auth (pg_app sample_program) = SignedIn ''a@b'' 50000" by code_simp+
  show ?thesis by (rule conjI [OF sign_out_in_sequence [OF p(1,2), THEN conjunct2] p(3)])
qed

theorem tunnel_outlives_window_witness:
  "s_alive (y_sup (ap_sys (pg_app (program_run ([CloseRequested, TrayMenu ''show'', TrayMenu ''quit''] @
     [Invoke (sample_surroundings (sample_world 100)) StopTunnel]) (program_run connecting sample_program))))) = {0}"
proof -
  let ?p = "program_run connecting sample_program"
  let ?es = "[CloseRequested, TrayMenu ''show'', TrayMenu ''quit''] :: unit happening list"
  let ?fs = "[Invoke (sample_surroundings (sample_world 100)) StopTunnel]"
  have p: "pg_end ?p = None" "s_alive (y_sup (ap_sys (pg_app ?p))) = {0}" by code_simp+
  have es: "\<forall>e \<in> set ?es. e = CloseRequested \<or> (\<exists>item. e = TrayMenu item)"
    "TrayMenu ''quit'' \<in> set ?es" "{q. ProcessEnds q \<in> set ?fs} = {}" by simp_all
  show ?thesis
    using tunnel_outlives_window [OF p(1) es(1), THEN conjunct2, THEN conjunct2, rule_format, OF es(2), of ?fs] p(2) es(3)
    by simp
qed

text \<open>A serialiser that writes every configuration as a text of its own: as many marks as its number.\<close>

instance oidc_ext :: (countable) countable
  by (rule countable_classI [of "\<lambda>r. to_nat (oidc_issuer r, oidc_client_id r, oidc_resource r, oidc_scope r,
        oidc_scopes r, oidc_redirect_port r, oidc.more r)"]) (auto intro: oidc.equality)

instance config_ext :: (countable) countable
  by (rule countable_classI [of "\<lambda>r. to_nat (cfg_host r, cfg_port r, cfg_user r, cfg_local_port r, cfg_key_path r,
        cfg_autostart r, cfg_manage_spotify r, cfg_enroll_base r, cfg_oidc r, cfg_proxy r, cfg_transport r,
        cfg_proxy_last_good r, cfg_keep_log r, cfg_update_check_hours r, cfg_theme r, cfg_accent r,
        cfg_transparency r, cfg_relay_port r, config.more r)"]) (auto intro: config.equality)

definition counting_world :: world where
  "counting_world = (sample_world 100)
     \<lparr>wd_cfg_ser := (\<lambda>c. Ok (replicate (to_nat c) (CHR ''x''))), wd_cfg_de := (\<lambda>s. Some (from_nat (length s)))\<rparr>"

lemma counting_reads_back: "reads_back counting_world dir"
  by (simp add: reads_back_def counting_world_def sample_world_def)

lemma counting_disk: "same_disk counting_world counting_world"
  by (simp add: same_disk_def)

theorem settings_on_disk_witness:
  "ap_cfg (launch_app counting_world [''d''] [''b''] (ap_store (pg_app (program_run
      [Invoke (sample_surroundings counting_world) (SaveConfig sample_signin_cfg), BeginDiscover ''x'', CloseRequested]
      (open_program counting_world [''d''] [''b''] [] (\<lambda>_. None)))))) = sample_signin_cfg"
proof -
  let ?es = "[Invoke (sample_surroundings counting_world) (SaveConfig sample_signin_cfg), BeginDiscover ''x'', CloseRequested]"
  let ?a = "pg_app (program_run ?es (open_program counting_world [''d''] [''b''] [] (\<lambda>_. None)))"
  have es: "\<forall>e \<in> set ?es. whole_saves counting_world e"
    by (simp add: sample_surroundings_def counting_disk)
  obtain st where "config_save (wd_cfg_ser counting_world) (wd_io counting_world) [''d''] sample_signin_cfg (\<lambda>_. None)
      = (Ok (), st)" using saved_settings [OF counting_reads_back] by blast
  then have "ap_cfg ?a = sample_signin_cfg"
    by (simp add: program_next_def open_program_def launch_app_def Let_def save_config_def save_write_def
        set_config_def sample_surroundings_def)
  then show ?thesis using settings_on_disk [OF counting_reads_back es refl] by simp
qed

theorem saves_cross_witness:
  "let p = open_program counting_world [''d''] [''b''] [] (\<lambda>_. None);
       p' = program_run [BeginSave counting_world sample_signin_cfg, BeginSave counting_world default_config,
              EndJob (sample_surroundings counting_world) (Suc 0), EndJob (sample_surroundings counting_world) 0] p
   in pg_answers p' = [AUnit (Ok ()), AUnit (Ok ())] \<and> ap_cfg (pg_app p') = sample_signin_cfg"
proof -
  let ?p = "open_program counting_world [''d''] [''b''] [] (\<lambda>_. None)"
  have p: "reads_back counting_world (ap_dir (pg_app ?p))" "pg_end ?p = None" "0 = length (pg_jobs ?p)"
    by (simp_all add: counting_reads_back open_program_def)
  have "pg_answers ?p = []" by (simp add: open_program_def)
  then show ?thesis
    using saves_cross [OF p refl, of sample_signin_cfg default_config "sample_surroundings counting_world"]
    by (simp add: Let_def)
qed

section \<open>A reset and a sign-in\<close>

text \<open>
  (C31) A reset does not end a sign-in that waits for the user: it shows nobody signed in and removes the
  tokens, but leaves the cancel flag down, so when the user then finishes in the browser, the thread
  saves the tokens and goes on to enrol, into the files that were just removed. After a sign-out,
  which raises the flag, the same thread gives up.
\<close>

theorem reset_leaves_sign_in:
  assumes "pg_end p = None" and "n < length (pg_tasks p)" and "tk_pc (pg_tasks p ! n) = AwaitUser"
    and "\<not> ap_cancel (pg_app p)" and "rp_round rp = Granted t" and "remove_ok (wd_io (so_world S)) (tokens_path (ap_dir (pg_app p)))"
    and "p1 = program_run [Invoke S ResetAll] p" and "p2 = program_run (replicate 3 (Thread W n rp)) p1"
    and "tokens_save (wd_tok_ser W) (wd_io W) (ap_dir (pg_app p)) t (ap_store (pg_app p1)) = (Ok (), st)"
    and "p3 = program_run (BeginSignOut # Thread W (length (pg_tasks p)) rp # [Thread W n rp]) p"
  shows "ap_auth (pg_app p1) = SignedOut \<and> ap_store (pg_app p1) (tokens_path (ap_dir (pg_app p))) = None \<and>
         tk_pc (pg_tasks p2 ! n) = ShowEnrolling t \<and>
         ap_store (pg_app p2) (tokens_path (ap_dir (pg_app p))) \<noteq> None \<and>
         tk_pc (pg_tasks p3 ! n) = ShowFailed sign_in_cancelled"
proof -
  have p1: "pg_end p1 = None" "pg_tasks p1 = pg_tasks p" "ap_cancel (pg_app p1) = ap_cancel (pg_app p)"
    "ap_dir (pg_app p1) = ap_dir (pg_app p)" "ap_auth (pg_app p1) = SignedOut"
    using assms(1) by (simp_all add: assms(7) program_next_def reset_all_def Let_def)
  have gone: "ap_store (pg_app p1) (tokens_path (ap_dir (pg_app p))) = None"
    using assms(1,6)
    by (simp add: assms(7) program_next_def reset_all_def Let_def tokens_forget_def clear_def remove_files_apply
        remove_file_def del: remove_files.simps)
  have "pg_app p2 = (pg_app p1)\<lparr>ap_store := st\<rparr> \<and> tk_pc (pg_tasks p2 ! n) = ShowEnrolling t"
    using assms(2-5,9) p1
    by (simp add: assms(8) program_next_def eval_nat_numeral at_stop_def signin_event_def signin_of_def
        with_signin_def task_step_def Let_def)
  moreover have "st (tokens_path (ap_dir (pg_app p))) \<noteq> None"
    using assms(9) by (auto simp: tokens_save_def split: sum.splits dest: write_file_OkD)
  moreover have "tk_pc (pg_tasks p3 ! n) = ShowFailed sign_in_cancelled"
    using assms(1-5)
    by (simp add: assms(10) program_next_def at_stop_def signin_event_def signin_of_def
        with_signin_def task_step_def Let_def nth_append list_update_append)
  ultimately show ?thesis using p1 gone by simp
qed

text \<open>Three steps into a sign-in the user is waited for.\<close>

definition waiting_program :: program where
  "waiting_program = program_run (take 4 signing_in_run) signing_in_program"

theorem reset_leaves_sign_in_witness:
  "tk_pc (pg_tasks (program_run (replicate 3 (Thread (sample_world 100) 0 sample_answers))
     (program_run [Invoke (sample_surroundings (sample_world 100)) ResetAll] waiting_program)) ! 0) =
   ShowEnrolling granted_tokens"
proof -
  let ?W = "sample_world 100" and ?p = waiting_program
  let ?S = "sample_surroundings ?W"
  let ?p1 = "program_run [Invoke ?S ResetAll] ?p"
  let ?save = "tokens_save (wd_tok_ser ?W) (wd_io ?W) (ap_dir (pg_app ?p)) granted_tokens (ap_store (pg_app ?p1))"
  have p: "pg_end ?p = None" "0 < length (pg_tasks ?p)" "tk_pc (pg_tasks ?p ! 0) = AwaitUser"
    "\<not> ap_cancel (pg_app ?p)" "rp_round sample_answers = Granted granted_tokens"
    "remove_ok (wd_io (so_world ?S)) (tokens_path (ap_dir (pg_app ?p)))" by code_simp+
  have "fst ?save = Ok ()" by code_simp
  then have save: "?save = (Ok (), snd ?save)" by (metis prod.collapse)
  show ?thesis using reset_leaves_sign_in [OF p refl refl save refl] by blast
qed

text \<open>
  The clicks of a user are enough to lose a client: connecting, disconnecting and connecting again
  before the first worker has looked, then disconnecting for good, leaves every worker at its end and
  the status Stopped while the first client is alive and in no slot.
\<close>

definition impatient :: "unit happening list" where
  "impatient =
     (let S = sample_surroundings (sample_world 100); w = (\<lambda>n. Worker n (willing (\<lambda>_. None))) in
      Invoke S StartTunnel # replicate 4 (w 0) @ [Invoke S StopTunnel, Invoke S StartTunnel] @
      replicate 3 (w 1) @ replicate 3 (w 0) @ replicate 4 (w 1) @ Invoke S StopTunnel #
      replicate 5 (w 0) @ replicate 5 (w 1))"

theorem impatient_user_loses_client:
  "map w_pc (y_workers (ap_sys (pg_app (program_run impatient sample_program)))) = [Done, Done] \<and>
   get_status (pg_app (program_run impatient sample_program)) = Stopped \<and>
   s_child (y_sup (ap_sys (pg_app (program_run impatient sample_program)))) = None \<and>
   s_alive (y_sup (ap_sys (pg_app (program_run impatient sample_program)))) = {0}"
  by (intro conjI) code_simp+

end
