(* ===== verification/Elsewhere.thy ===== *)
theory Elsewhere
  imports Shell
begin

text \<open>
  The other half of each \<^verbatim>\<open>#[cfg(windows)]\<close>: what is compiled in its place on other systems, and that
  the program there is the one on Windows when the registry, PowerShell and the tools of Windows give
  no answer. The rest of the development models the Windows build.
\<close>

definition reg_value_elsewhere :: "string \<Rightarrow> string option" where
  "reg_value_elsewhere name = None"

definition system_proxy_elsewhere :: "string \<Rightarrow> string option" where
  "system_proxy_elsewhere target = None"

definition windows_accent_elsewhere :: "string option" where
  "windows_accent_elsewhere = None"

definition spotify_running_elsewhere :: bool where
  "spotify_running_elsewhere = False"

definition connected_apps_elsewhere :: "u16 \<Rightarrow> client_app list" where
  "connected_apps_elsewhere local_port = []"

text \<open>\<open>chmod\<close> is the answer to \<^verbatim>\<open>set_permissions\<close> with mode 600.\<close>

definition restrict_elsewhere :: "(path \<Rightarrow> unit result) \<Rightarrow> path \<Rightarrow> unit result" where
  "restrict_elsewhere chmod p = chmod p"

definition no_clipboard_msg :: string where
  "no_clipboard_msg = ''clipboard not supported on this platform''"

definition copy_text_elsewhere :: "string \<Rightarrow> unit result" where
  "copy_text_elsewhere text = Err no_clipboard_msg"

definition open_in_browser_elsewhere :: "bool \<Rightarrow> string \<Rightarrow> command list" where
  "open_in_browser_elsewhere macos url = [(if macos then ''open'' else ''xdg-open'', [url])]"

text \<open>A system on which only the environment answers.\<close>

definition silent :: "(string \<Rightarrow> string option) \<Rightarrow> sysenv" where
  "silent env = \<lparr>env_var = env, reg_query = (\<lambda>_. None), powershell = (\<lambda>_. None)\<rparr>"

text \<open>
  Elsewhere the program sees what it sees on a Windows that does not answer: no registry value, no
  proxy from the system, no accent, no Spotify process and no connected application; and so the
  proxy it detects comes from the settings or the environment, or is the remembered one.
\<close>

theorem elsewhere_is_silent:
  "reg_value (silent env) name = reg_value_elsewhere name \<and>
   system_proxy_for (silent env) target = system_proxy_elsewhere target \<and>
   windows_accent None = windows_accent_elsewhere \<and>
   spotify_running (\<lambda>_. Err e) = spotify_running_elsewhere \<and>
   connected_apps walk None tasklist local_port = connected_apps_elsewhere local_port \<and>
   (detect_for (silent env) slot ov target = detect (silent env) ov \<or>
    detect_for (silent env) slot ov target =
      (detect (silent env) ov)\<lparr>pi_url := normalise slot, pi_source := ''remembered''\<rparr>)"
  by (simp add: silent_def reg_value_def reg_value_elsewhere_def system_proxy_for_def system_proxy_run_def system_proxy_elsewhere_def
      windows_accent_def windows_accent_elsewhere_def spotify_running_def spotify_running_elsewhere_def
      connected_apps_def connected_apps_elsewhere_def detect_for_def last_good_def Let_def)

end
