(* ===== verification/Spec2Isabelle.thy ===== *)
theory Spec2Isabelle
  imports Program Elsewhere
begin

text \<open>
  SplitStream, the desktop client of a split tunnel: a window with a tray icon that signs a user in,
  enrols for a short-lived SSH certificate, and keeps an SSH client with a SOCKS listener running,
  directly or through a WebSocket relay. The sources are the Rust files of
  \<^verbatim>\<open>src/src-tauri/src\<close>; this library models all of them.

  Parts and how they meet. \<^verbatim>\<open>main.rs\<close> holds the state (\<^verbatim>\<open>App\<close>: supervisor, settings, sign-in state,
  cancel flag, data directory) and the commands of the window. A sign-in (\<^verbatim>\<open>auth.rs\<close>) yields tokens,
  with which \<^verbatim>\<open>enroll.rs\<close> obtains a certificate and leaves key, certificate, host key and record in
  the data directory; \<^verbatim>\<open>start_tunnel\<close> reads the record, renews it when it is due, decides between a
  direct connection and the relay, and hands the transport to the supervisor of \<^verbatim>\<open>tunnel.rs\<close>, whose
  worker thread runs and watches the processes. \<^verbatim>\<open>net.rs\<close> finds the proxy that every request, the
  relay and the updater use; \<^verbatim>\<open>spotify.rs\<close> points Spotify at the listener; \<^verbatim>\<open>autostart.rs\<close> and
  \<^verbatim>\<open>pageant.rs\<close> are Windows services around it.

  Theories, from the ground up:

  \<^item> \<open>Prelude\<close>: machine integers, results, generic lemmas, and the interfaces as locales:
    \<open>invariant_system\<close> (on the two step relations of the supervisor), \<open>event_system\<close> (on a cancelled
    sign-in, on a stranded relay and on the settings of the program) with \<open>progress_system\<close> (on the stopping
    supervisor, and on the program after the tunnel was stopped), \<open>invariant_simulation\<close> (on the program, which
    drives the supervisor and so inherits its invariant), \<open>codec\<close> (on base64url and percent-encoding), \<open>keyed_store\<close> (on the
    file store and on Spotify's preferences).
  \<^item> \<open>Rust_Str\<close>, \<open>Rust_Text\<close>, \<open>Utf8\<close>, \<open>Json_Value\<close>, \<open>Files\<close>, \<open>Process\<close>: what the sources use of the
    standard library. A Rust string is the list of its bytes; \<open>Utf8\<close> says where its characters begin,
    which matters where the code slices. Files are a map from paths to contents, with an argument
    (\<open>io_env\<close>) for every way an operation can fail; a program that is run to completion is an answer of
    a \<open>runner\<close>.
  \<^item> \<open>Encoding\<close>: base64 and percent-encoding of \<^verbatim>\<open>auth.rs\<close>, byte by byte.
  \<^item> \<open>Config\<close> (\<^verbatim>\<open>config.rs\<close>), \<open>Net\<close> (\<^verbatim>\<open>net.rs\<close>), \<open>Auth\<close> (\<^verbatim>\<open>auth.rs\<close>), \<open>Enroll\<close> (\<^verbatim>\<open>enroll.rs\<close>),
    \<open>Spotify\<close> (\<^verbatim>\<open>spotify.rs\<close>), \<open>Autostart\<close> (\<^verbatim>\<open>autostart.rs\<close>, \<^verbatim>\<open>pageant.rs\<close>): one definition per function,
    under its name, with the fields of each struct as a record.
  \<^item> \<open>Transport\<close>, \<open>Supervisor\<close>, \<open>Client_Apps\<close> (\<^verbatim>\<open>tunnel.rs\<close>): the command lines; the worker thread of
    \<^verbatim>\<open>Supervisor::start\<close> and the thread that calls \<^verbatim>\<open>stop\<close> as program counters over the shared state, cut at
    every access to it, with \<open>run\<close> for any interleaving; the list of connected applications.
  \<^item> \<open>App\<close>, \<open>Commands\<close>, \<open>Sign_In\<close>, \<open>Shell\<close> (\<^verbatim>\<open>main.rs\<close>): launch and the commands as steps of the state;
    sign-in, cancellation and sign-out as interleaved threads; updates, browser and clipboard.
  \<^item> \<open>Disk\<close>: the settings file and the settings in memory, and what each command leaves of them.
  \<^item> \<open>Program\<close> (\<^verbatim>\<open>main\<close> of \<^verbatim>\<open>main.rs\<close>): the whole program as one state (application, threads, commands under
    way, answers given, window) driven by events: a command from its table, the steps of threads and
    workers, ending processes, clicks. A command is one step, but \<^verbatim>\<open>discover\<close>, \<^verbatim>\<open>save_config\<close> and \<^verbatim>\<open>stop_tunnel\<close> can
    be taken in their parts, and sign-in, cancellation and sign-out are threads.
  \<^item> \<open>Elsewhere\<close>: what is compiled on other systems in place of the parts for Windows.

  What is shown. Supervisor: the status says connected only after a handshake, a worker's life follows a
  six-state abstraction, no process is lost as long as \<^verbatim>\<open>start\<close> does not overtake a stopping worker, a
  stop is complete within twelve steps of each worker, a lost client does not stay Connected for more than seven;
  and what happens when those conditions fail. Sign-in: a reply is
  accepted only with the expected state, the URL opened says what the request means, polling ends in time and keeps the
  provider's pace, what a sign-in that has its tokens leaves on disk in every case, nobody is shown as signed in
  without an installed certificate. Enrollment: a success
  leaves a complete set of files, which the tunnel then uses; a removal leaves none. The text
  formats: round trips of the codecs, of the preferences, of the settings, of the callback. The whole program: disconnecting,
  the reset and signing out end the tunnel; it shows a connection only after a handshake and a user only after
  an enrollment, and keeps on disk the settings in use. The last section of this file states how sign-in,
  restart and tunnel fit together.

  Bounds and fuel. The poll and accept loops are given fuel, one unit for each round, and return \<open>None\<close> without; the
  poll is shown to return with one unit more than the lifetime of its code in seconds: \<^verbatim>\<open>begin\<close> returns an interval of
  at least a second, \<^verbatim>\<open>slow_down\<close> only lengthens it, and the clock is assumed to advance by what is slept. The supervisor and the sign-in are driven by event lists of any length, so they need
  none. All other loops are structural or have a measure.

  Arguments of the model, with what is assumed of them named in each theorem: HTTP and its replies, JSON and serde,
  the clock, randomness and SHA-256, key generation, the registry, environment and PowerShell, sockets, the
  processes' fates, the updater plugin, the order in which a hash map is walked.

  Not modelled: the parsing of JSON and the serialisation of records (serde), logging, the focus and the
  icon of the window, the interface in JavaScript, the enrollment server in Python, and the server's
  images and scripts. The background threads are cut where they touch shared state; file
  operations inside one part of an enrollment are one step, and so are the other commands, which in
  the program run on threads of their own. Memory exhaustion and poisoned locks are not considered.
\<close>

section \<open>From sign-in to tunnel\<close>


lemma finish_sign_in_SignedInD:
  assumes "finish_sign_in W dir cfg service t st = (SignedIn email expires, st')"
  shows "\<exists>st1 r. enroll (wd_enr_ser W) (wd_io W) (wd_keygen W) (wd_run W) (wd_user W) service (wd_now W) dir
             (enroll_url cfg) t st1 = (Ok r, st') \<and>
           st1 (known_hosts_path dir) = st (known_hosts_path dir) \<and>
           email = shown_email t r \<and> expires = enr_expires_at r"
proof -
  obtain st1 r where "tokens_save (wd_tok_ser W) (wd_io W) dir t st = (Ok (), st1)"
    "enroll (wd_enr_ser W) (wd_io W) (wd_keygen W) (wd_run W) (wd_user W) service (wd_now W) dir
       (enroll_url cfg) t st1 = (Ok r, st')" "email = shown_email t r" "expires = enr_expires_at r"
    using assms by (auto simp: finish_sign_in_def split: sum.splits prod.splits)
  moreover from this tokens_save_OkD have "st1 (known_hosts_path dir) = st (known_hosts_path dir)" by fastforce
  ultimately show ?thesis by blast
qed

lemma enroll_load:
  assumes "enroll ser env kg runs user service now dir url t st = (Ok r, st')"
    and "\<forall>body. ser r = Ok body \<longrightarrow> de body = Some r" and "read_error env (enrollment_path dir) = None"
  shows "enrollment_load de env dir st' = Some r"
proof -
  obtain st1 v public where "install ser env now dir v st1 = (Ok r, st')" using enroll_OkD [OF assms(1)] by blast
  from install_OkD [OF this] assms(2,3) show ?thesis
    by (auto simp: enrollment_load_def read_to_string_def)
qed

text \<open>
  (C27) A sign-in outlives the program, except for the name: after a restart on the files a successful sign-in
  left, the certificate is found and, as long as it is valid, the state says signed in until the same time; the
  name shown is the one of the service, so the email that was shown for want of it is gone.
\<close>

theorem sign_in_survives_restart:
  assumes "finish_sign_in W dir cfg service t st = (SignedIn email expires, st')"
    and "\<forall>r body. wd_enr_ser W r = Ok body \<longrightarrow> wd_enr_de W body = Some r"
    and "read_error (wd_io W) (enrollment_path dir) = None" and "later < expires"
  shows "\<exists>identity. ap_auth (launch_app (W\<lparr>wd_now := later\<rparr>) dir bundled st') = SignedIn identity expires \<and>
           email = (if identity = [] then tok_email t else identity)"
proof -
  obtain st1 r where r: "enroll (wd_enr_ser W) (wd_io W) (wd_keygen W) (wd_run W) (wd_user W) service (wd_now W) dir
      (enroll_url cfg) t st1 = (Ok r, st')" "email = shown_email t r" "expires = enr_expires_at r"
    using finish_sign_in_SignedInD [OF assms(1)] by blast
  from enroll_load [OF r(1) _ assms(3)] assms(2) have "enrollment_load (wd_enr_de W) (wd_io W) dir st' = Some r" by blast
  with assms(4) r show ?thesis
    by (simp add: launch_app_def initial_auth_def Let_def enrollment_is_valid_def shown_email_def)
qed

lemma config_apart [simp]: "key_path d \<noteq> config_path d" "known_hosts_path d \<noteq> config_path d"
  by (simp_all add: path_defs config_path_def)

lemma fresh_record:
  "unat now + 7200 < unat (enr_expires_at r) \<Longrightarrow> enrollment_is_valid now r \<and> \<not> needs_renewal now r"
proof -
  assume a: "unat now + 7200 < unat (enr_expires_at r)"
  moreover have "unat (enr_expires_at r) < 2 ^ 64" using unsigned_less [of "enr_expires_at r"] by simp
  ultimately have "unat (now + 7200) = unat now + 7200" by (simp add: unat_word_ariths)
  with a show ?thesis by (simp add: enrollment_is_valid_def needs_renewal_def word_less_nat_alt word_le_nat_alt)
qed

lemma launch_tunnel_frame:
  "last q \<noteq> ''prefs'' \<Longrightarrow> last q \<noteq> ''prefs.splitstream.bak'' \<Longrightarrow>
   ap_store (launch_tunnel W t cfg via a) q = ap_store a q"
  by (simp add: launch_tunnel_def spotify_frame(1) [OF _ _ surjective_pairing])

lemma credentials_last [simp]:
  "last (key_path d) = ''id_ed25519''" "last (cert_path d) = ''id_ed25519-cert.pub''"
  "last (known_hosts_path d) = ''known_hosts''"
  by (simp_all add: path_defs path_join_def)

text \<open>
  (C11) What was enrolled is what connects. A tunnel that is started on the files of a successful sign-in, with
  more than two hours left on its certificate, is one more worker that runs OpenSSH with the key file and the
  pinned host keys of the data directory, under the settings of the enrolled record; and while it does, the key
  file holds the private key that was generated, the certificate beside it is the one the service issued for
  its public half, and the pins are the service's host key, or, when it named none, what they were before.
\<close>

theorem enrolled_credentials_connect:
  assumes "finish_sign_in W (ap_dir a) cfg service t st = (SignedIn email expires, ap_store a)"
    and "\<forall>r body. wd_enr_ser W r = Ok body \<longrightarrow> wd_enr_de W body = Some r"
    and "read_error (wd_io W) (enrollment_path (ap_dir a)) = None"
    and "unat later + 7200 < unat expires" and "\<not> s_running (y_sup (ap_sys a))"
    and "start_tunnel (W\<lparr>wd_now := later\<rparr>) a = (Ok (), a')"
  shows "\<exists>exe via private public v cert.
           y_workers (ap_sys a') = y_workers (ap_sys a) @
             [new_worker (OpenSsh exe (key_path (ap_dir a)) (known_hosts_path (ap_dir a)))
                (with_record (enrollment_of (wd_now W) v) (ap_cfg a)) via] \<and>
           kg_private (wd_keygen W) = Ok private \<and> kg_public (wd_keygen W) = Ok public \<and>
           service_reply (service (trim (enroll_url cfg)) (''Bearer '' @ tok_access t)
             (JObj [(''id_token'', JStr (tok_id t)), (''public_key'', JStr public)])) = Ok v \<and>
           get_str ''certificate'' v = Some cert \<and>
           ap_store a' (key_path (ap_dir a)) = Some private \<and>
           ap_store a' (cert_path (ap_dir a)) = Some (cert @ [nl]) \<and>
           ap_store a' (known_hosts_path (ap_dir a)) =
             (if host_key_of v = [] then st (known_hosts_path (ap_dir a))
              else Some (host_alias @ '' '' @ host_key_of v @ [nl]))"
proof -
  let ?dir = "ap_dir a"
  obtain st1 r where save: "st1 (known_hosts_path ?dir) = st (known_hosts_path ?dir)"
    and r: "enroll (wd_enr_ser W) (wd_io W) (wd_keygen W) (wd_run W) (wd_user W) service (wd_now W) ?dir
      (enroll_url cfg) t st1 = (Ok r, ap_store a)" "expires = enr_expires_at r"
    using finish_sign_in_SignedInD [OF assms(1)] by blast
  have load: "enrollment_load (wd_enr_de W) (wd_io W) ?dir (ap_store a) = Some r"
    using enroll_load [OF r(1) _ assms(3)] assms(2) by blast
  have "current_record (W\<lparr>wd_now := later\<rparr>) (ap_last_good a) ?dir (ap_cfg a) (ap_store a) =
      (Ok (Some r, None), ap_store a)"
    using load fresh_record [of later r] assms(4) r(2) by (simp add: current_record_def)
  from start_tunnel_with_record [OF this assms(6)] obtain exe via st1'
    where st1': "st1' = snd (config_save (wd_cfg_ser W) (wd_io W) ?dir (with_record r (ap_cfg a)) (ap_store a))"
      and a': "a' = launch_tunnel (W\<lparr>wd_now := later\<rparr>) (OpenSsh exe (key_path ?dir) (known_hosts_path ?dir))
                  (with_record r (ap_cfg a)) via
                  (a\<lparr>ap_auth := ap_auth a, ap_cfg := with_record r (ap_cfg a), ap_store := st1'\<rparr>)"
    by auto
  have kept: "ap_store a' p = ap_store a p" if "p \<in> {key_path ?dir, cert_path ?dir, known_hosts_path ?dir}" for p
    using that by (auto simp: a' launch_tunnel_frame st1' config_save_frame)
  have "y_workers (ap_sys a') = y_workers (ap_sys a) @
      [new_worker (OpenSsh exe (key_path ?dir) (known_hosts_path ?dir)) (with_record r (ap_cfg a)) via]"
    using start_when_stopped [OF assms(5)] by (simp add: a' launch_tunnel_def)
  moreover obtain secret public v cert where
    "kg_private (wd_keygen W) = Ok secret" "ap_store a (key_path ?dir) = Some secret"
    "kg_public (wd_keygen W) = Ok public"
    "service_reply (service (trim (enroll_url cfg)) (''Bearer '' @ tok_access t)
       (JObj [(''id_token'', JStr (tok_id t)), (''public_key'', JStr public)])) = Ok v"
    "get_str ''certificate'' v = Some cert" "ap_store a (cert_path ?dir) = Some (cert @ [nl])"
    "ap_store a (known_hosts_path ?dir) = (if host_key_of v = [] then st1 (known_hosts_path ?dir)
       else Some (host_alias @ '' '' @ host_key_of v @ [nl]))" "r = enrollment_of (wd_now W) v"
    using enroll_contents [OF r(1)] by metis
  ultimately show ?thesis
    by (intro exI [of _ exe] exI [of _ via] exI [of _ secret] exI [of _ public] exI [of _ v] exI [of _ cert])
      (simp add: kept save)
qed

text \<open>A world in which the record that is written is the one that is read back.\<close>

definition faithful_world :: "u64 \<Rightarrow> world" where
  "faithful_world now = (sample_world now)
     \<lparr>wd_enr_ser := (\<lambda>r. if r = enrollment_of 100 sample_reply then Ok ''enr'' else Err ''not this one''),
      wd_enr_de := (\<lambda>_. Some (enrollment_of 100 sample_reply))\<rparr>"

lemma faithful_world_law:
  "\<forall>r body. wd_enr_ser (faithful_world now) r = Ok body \<longrightarrow> wd_enr_de (faithful_world now) body = Some r"
  by (simp add: faithful_world_def split: if_splits)

definition enrolled_files :: "auth_state \<times> store" where
  "enrolled_files = finish_sign_in (faithful_world 100) [''d''] sample_signin_cfg granting granted_tokens (\<lambda>_. None)"

theorem sign_in_survives_restart_witness:
  "\<exists>identity. ap_auth (launch_app ((faithful_world 100)\<lparr>wd_now := 30000\<rparr>) [''d''] [''b''] (snd enrolled_files)) =
     SignedIn identity 43300"
proof -
  have "fst enrolled_files = SignedIn ''a@b'' 43300"
    "read_error (wd_io (faithful_world 100)) (enrollment_path [''d'']) = None" "(30000 :: u64) < 43300"
    by code_simp+
  moreover from this have "finish_sign_in (faithful_world 100) [''d''] sample_signin_cfg granting granted_tokens (\<lambda>_. None) =
      (SignedIn ''a@b'' 43300, snd enrolled_files)" by (metis enrolled_files_def prod.collapse)
  ultimately show ?thesis using sign_in_survives_restart [OF _ faithful_world_law] by blast
qed

definition enrolled_app :: app where
  "enrolled_app = (let a = launch_app (faithful_world 100) [''d''] [''b''] (snd enrolled_files)
     in a\<lparr>ap_cfg := (ap_cfg a)\<lparr>cfg_manage_spotify := True\<rparr>\<rparr>)"

theorem enrolled_credentials_connect_witness:
  "let a' = snd (start_tunnel ((faithful_world 100)\<lparr>wd_now := 30000\<rparr>) enrolled_app) in
   (\<exists>exe cfg' via. y_workers (ap_sys a') =
     [new_worker (OpenSsh exe (key_path [''d'']) (known_hosts_path [''d''])) cfg' via]) \<and>
   ap_store a' (key_path [''d'']) = Some ''PRIVATE''"
proof -
  let ?W = "faithful_world 100" and ?a = enrolled_app
  let ?start = "start_tunnel (?W\<lparr>wd_now := 30000\<rparr>) ?a"
  have f: "fst enrolled_files = SignedIn ''a@b'' 43300" "ap_dir ?a = [''d'']" "y_workers (ap_sys ?a) = []"
    "read_error (wd_io ?W) (enrollment_path (ap_dir ?a)) = None" "unat (30000 :: u64) + 7200 < unat (43300 :: u64)"
    "\<not> s_running (y_sup (ap_sys ?a))" "fst ?start = Ok ()" "kg_private (wd_keygen ?W) = Ok ''PRIVATE''"
    by code_simp+
  have "ap_store ?a = snd enrolled_files" by (simp add: enrolled_app_def launch_app_def Let_def)
  then have "finish_sign_in ?W (ap_dir ?a) sample_signin_cfg granting granted_tokens (\<lambda>_. None) =
      (SignedIn ''a@b'' 43300, ap_store ?a)" using f(1,2) by (metis enrolled_files_def prod.collapse)
  moreover have "?start = (Ok (), snd ?start)" using f(7) by (metis prod.collapse)
  ultimately show ?thesis
    using enrolled_credentials_connect [OF _ faithful_world_law f(4) f(5) f(6)] f(2,3,8) unfolding Let_def
    by fastforce
qed

end
